theory Spec2Isabelle
  imports Main "HOL-Library.Word"
begin

unbundle bit_operations_syntax

section \<open>Bytes, buffers and little-endian access\<close>

type_synonym u8 = "8 word"
type_synonym u16 = "16 word"
type_synonym u32 = "32 word"

text \<open>
  A \<^verbatim>\<open>uint8_t *\<close> is the memory behind the pointer: a function from the offset to the byte
  stored there. A write through the pointer is a function update, so no write is ever lost
  or clipped by a length the C code does not know either.
\<close>

type_synonym bytes = "nat \<Rightarrow> u8"

text \<open>A buffer holding the given bytes, zero behind them (used to write down inputs).\<close>

definition buf_of :: "u8 list \<Rightarrow> bytes" where
  "buf_of xs = (\<lambda>i. if i < length xs then xs ! i else 0)"

text \<open>
  Modelled from the spec: \<^verbatim>\<open>htole16\<close>, \<^verbatim>\<open>htole32\<close> and \<^verbatim>\<open>le16toh\<close> are declared in
  nimble/ble.h, which is not part of the source; every multi-byte field is little-endian.
\<close>

definition htole16 :: "bytes \<Rightarrow> nat \<Rightarrow> u16 \<Rightarrow> bytes" where
  "htole16 buf off x = buf(off := ucast x, off + 1 := ucast (drop_bit 8 x))"

definition htole32 :: "bytes \<Rightarrow> nat \<Rightarrow> u32 \<Rightarrow> bytes" where
  "htole32 buf off x =
     buf(off := ucast x, off + 1 := ucast (drop_bit 8 x),
         off + 2 := ucast (drop_bit 16 x), off + 3 := ucast (drop_bit 24 x))"

definition le16toh :: "bytes \<Rightarrow> nat \<Rightarrow> u16" where
  "le16toh buf off = ucast (buf off) OR push_bit 8 (ucast (buf (off + 1)))"

text \<open>\<^verbatim>\<open>memcpy(dst + off, src, n)\<close> on disjoint buffers.\<close>

definition memcpy :: "bytes \<Rightarrow> nat \<Rightarrow> bytes \<Rightarrow> nat \<Rightarrow> bytes" where
  "memcpy dst off src n = (\<lambda>i. if off \<le> i \<and> i < off + n then src (i - off) else dst i)"

text \<open>\<^verbatim>\<open>memmove(buf + dst, buf + src, n)\<close> inside one buffer: the source is read as it was
  before the call, whatever the overlap.\<close>

definition memmove :: "bytes \<Rightarrow> nat \<Rightarrow> nat \<Rightarrow> nat \<Rightarrow> bytes" where
  "memmove buf dst src n =
     (\<lambda>i. if dst \<le> i \<and> i < dst + n then buf (src + (i - dst)) else buf i)"

section \<open>Constants of the headers\<close>

text \<open>
  Modelled from the spec: the status codes of nimble/ble.h (not part of the source). The
  spec names them ("command disallowed", "invalid parameters", "connection limit reached",
  "unknown connection identifier") and the seven disconnect reasons; the numbers are the
  error codes of the Bluetooth Core Specification that the header spells out. A C macro of
  this kind has type \<^verbatim>\<open>int\<close>.
\<close>

definition BLE_ERR_SUCCESS :: int where "BLE_ERR_SUCCESS = 0"
definition BLE_ERR_UNK_CONN_ID :: int where "BLE_ERR_UNK_CONN_ID = 0x02"
definition BLE_ERR_AUTH_FAIL :: int where "BLE_ERR_AUTH_FAIL = 0x05"
definition BLE_ERR_CONN_LIMIT :: int where "BLE_ERR_CONN_LIMIT = 0x09"
definition BLE_ERR_CMD_DISALLOWED :: int where "BLE_ERR_CMD_DISALLOWED = 0x0c"
definition BLE_ERR_INV_HCI_CMD_PARMS :: int where "BLE_ERR_INV_HCI_CMD_PARMS = 0x12"
definition BLE_ERR_REM_USER_CONN_TERM :: int where "BLE_ERR_REM_USER_CONN_TERM = 0x13"
definition BLE_ERR_RD_CONN_TERM_RESRCS :: int where "BLE_ERR_RD_CONN_TERM_RESRCS = 0x14"
definition BLE_ERR_RD_CONN_TERM_PWROFF :: int where "BLE_ERR_RD_CONN_TERM_PWROFF = 0x15"
definition BLE_ERR_UNSUPP_FEATURE :: int where "BLE_ERR_UNSUPP_FEATURE = 0x1a"
definition BLE_ERR_UNIT_KEY_PAIRING :: int where "BLE_ERR_UNIT_KEY_PAIRING = 0x29"
definition BLE_ERR_CONN_PARMS :: int where "BLE_ERR_CONN_PARMS = 0x3b"

text \<open>
  Modelled from the spec: the layout constants of the connect request and the units of the
  timing check, from nimble/ble.h, nimble/hci_common.h and controller/ble_ll_conn.h (not part
  of the source). The spec fixes them: a 2-byte header, 6-byte addresses, the advertiser
  address at byte 8, 34 payload bytes, a 5-byte channel map, supervision timeout in units of
  10 ms and connection interval in units of 1.25 ms = 1250 microseconds. The PDU type of a
  connect request and the TxAdd flag are those of the Bluetooth advertising channel PDU header.
\<close>

definition BLE_LL_PDU_HDR_LEN :: nat where "BLE_LL_PDU_HDR_LEN = 2"
definition BLE_DEV_ADDR_LEN :: nat where "BLE_DEV_ADDR_LEN = 6"
definition BLE_LL_CONN_REQ_ADVA_OFF :: nat where
  "BLE_LL_CONN_REQ_ADVA_OFF = BLE_LL_PDU_HDR_LEN + BLE_DEV_ADDR_LEN"
definition BLE_CONNECT_REQ_LEN :: nat where "BLE_CONNECT_REQ_LEN = 34"
definition BLE_LL_CONN_CHMAP_LEN :: nat where "BLE_LL_CONN_CHMAP_LEN = 5"
definition BLE_ADV_PDU_TYPE_CONNECT_REQ :: u8 where "BLE_ADV_PDU_TYPE_CONNECT_REQ = 5"
definition BLE_ADV_PDU_HDR_TXADD_RAND :: u8 where "BLE_ADV_PDU_HDR_TXADD_RAND = 0x40"
definition BLE_HCI_ADV_OWN_ADDR_PUBLIC :: u8 where "BLE_HCI_ADV_OWN_ADDR_PUBLIC = 0"
definition BLE_HCI_ADV_OWN_ADDR_RANDOM :: u8 where "BLE_HCI_ADV_OWN_ADDR_RANDOM = 1"
definition BLE_HCI_CONN_SPVN_TMO_UNITS :: u32 where "BLE_HCI_CONN_SPVN_TMO_UNITS = 10"
definition BLE_LL_CONN_ITVL_USECS :: u32 where "BLE_LL_CONN_ITVL_USECS = 1250"
definition BLE_HCI_EVCODE_NUM_COMP_PKTS :: u8 where "BLE_HCI_EVCODE_NUM_COMP_PKTS = 0x13"

text \<open>
  The bounds that the command checks compare against are macros of the same absent headers,
  and the spec calls them "protocol-defined" without giving numbers; the same holds for the
  highest connection handle, the number of the termination procedure and the rate of the
  completed-packets report (in ticks). They are a parameter of the model, so that what is
  proved of the checks holds whatever the headers say. \<open>ble_consts\<close> below holds the
  bounds of the Bluetooth Core Specification, procedure number 5 and a rate of 2000 ticks.
\<close>

record ll_consts =
  BLE_HCI_SCAN_ITVL_MIN :: int
  BLE_HCI_SCAN_ITVL_MAX :: int
  BLE_HCI_SCAN_WINDOW_MIN :: int
  BLE_HCI_SCAN_WINDOW_MAX :: int
  BLE_HCI_INITIATOR_FILT_POLICY_MAX :: int
  BLE_HCI_CONN_PEER_ADDR_MAX :: int
  BLE_HCI_ADV_OWN_ADDR_MAX :: int
  BLE_HCI_CONN_ITVL_MIN :: int
  BLE_HCI_CONN_ITVL_MAX :: int
  BLE_HCI_CONN_LATENCY_MAX :: int
  BLE_HCI_CONN_SPVN_TIMEOUT_MIN :: int
  BLE_HCI_CONN_SPVN_TIMEOUT_MAX :: int
  BLE_LL_CONN_MAX_CONN_HANDLE :: int
  BLE_LL_CTRL_PROC_TERMINATE :: nat
  BLE_LL_NUM_COMP_PKT_RATE :: u32

definition ble_consts :: ll_consts where
  "ble_consts = \<lparr>
     BLE_HCI_SCAN_ITVL_MIN = 4, BLE_HCI_SCAN_ITVL_MAX = 16384,
     BLE_HCI_SCAN_WINDOW_MIN = 4, BLE_HCI_SCAN_WINDOW_MAX = 16384,
     BLE_HCI_INITIATOR_FILT_POLICY_MAX = 1,
     BLE_HCI_CONN_PEER_ADDR_MAX = 1,
     BLE_HCI_ADV_OWN_ADDR_MAX = 3,
     BLE_HCI_CONN_ITVL_MIN = 0x0006, BLE_HCI_CONN_ITVL_MAX = 0x0c80,
     BLE_HCI_CONN_LATENCY_MAX = 0x01f3,
     BLE_HCI_CONN_SPVN_TIMEOUT_MIN = 0x000a, BLE_HCI_CONN_SPVN_TIMEOUT_MAX = 0x0c80,
     BLE_LL_CONN_MAX_CONN_HANDLE = 0x0eff,
     BLE_LL_CTRL_PROC_TERMINATE = 5,
     BLE_LL_NUM_COMP_PKT_RATE = 2000 \<rparr>"

section \<open>The create-connection command: parsing and validation\<close>

text \<open>
  \<^verbatim>\<open>struct hci_create_conn\<close>, filled from the command buffer. \<^verbatim>\<open>ccdata\<close> is an
  uninitialised local: the peer address type and the peer address are read only when the
  filter policy is 0, and are indeterminate (\<open>None\<close>) otherwise.
\<close>

record hci_create_conn =
  hcc_scan_itvl :: u16
  hcc_scan_window :: u16
  hcc_filter_policy :: u8
  hcc_peer_addr_type :: "u8 option"
  hcc_peer_addr :: "u8 list option"
  hcc_own_addr_type :: u8
  hcc_conn_itvl_min :: u16
  hcc_conn_itvl_max :: u16
  hcc_conn_latency :: u16
  hcc_supervision_timeout :: u16
  hcc_min_ce_len :: u16
  hcc_max_ce_len :: u16

text \<open>Lines 338-342: both sides of the cross-field check, computed in \<^verbatim>\<open>uint32_t\<close>.\<close>

definition spvn_tmo_usecs :: "u16 \<Rightarrow> u32" where
  "spvn_tmo_usecs supervision_timeout =
     ucast supervision_timeout * (BLE_HCI_CONN_SPVN_TMO_UNITS * 1000)"

definition min_spvn_tmo_usecs :: "u16 \<Rightarrow> u16 \<Rightarrow> u32" where
  "min_spvn_tmo_usecs conn_itvl_max conn_latency =
     (ucast conn_itvl_max * 2 * BLE_LL_CONN_ITVL_USECS) * (1 + ucast conn_latency)"

text \<open>
  Lines 280-352 of \<^verbatim>\<open>ble_ll_conn_create\<close>: the fields are read and checked in the order of
  the source; \<open>Inl\<close> is an early \<^verbatim>\<open>return\<close> with that status, \<open>Inr\<close> the filled
  structure with which the function goes on.
\<close>

definition ble_ll_conn_create_parse :: "ll_consts \<Rightarrow> bytes \<Rightarrow> int + hci_create_conn" where
  "ble_ll_conn_create_parse K cmdbuf =
    (let scan_itvl = le16toh cmdbuf 0;
         scan_window = le16toh cmdbuf 2 in
     if uint scan_itvl < BLE_HCI_SCAN_ITVL_MIN K \<or>
        uint scan_itvl > BLE_HCI_SCAN_ITVL_MAX K \<or>
        uint scan_window < BLE_HCI_SCAN_WINDOW_MIN K \<or>
        uint scan_window > BLE_HCI_SCAN_WINDOW_MAX K \<or>
        scan_itvl < scan_window
     then Inl BLE_ERR_INV_HCI_CMD_PARMS
     else
     let filter_policy = cmdbuf 4 in
     if uint filter_policy > BLE_HCI_INITIATOR_FILT_POLICY_MAX K
     then Inl BLE_ERR_INV_HCI_CMD_PARMS
     else
     if filter_policy = 0 \<and> uint (cmdbuf 5) > BLE_HCI_CONN_PEER_ADDR_MAX K
     then Inl BLE_ERR_INV_HCI_CMD_PARMS
     else
     let peer_addr_type = (if filter_policy = 0 then Some (cmdbuf 5) else None);
         peer_addr = (if filter_policy = 0
                      then Some (map (\<lambda>i. cmdbuf (6 + i)) [0..<BLE_DEV_ADDR_LEN]) else None);
         own_addr_type = cmdbuf 12 in
     if uint own_addr_type > BLE_HCI_ADV_OWN_ADDR_MAX K
     then Inl BLE_ERR_INV_HCI_CMD_PARMS
     else
     let conn_itvl_min = le16toh cmdbuf 13;
         conn_itvl_max = le16toh cmdbuf 15;
         conn_latency = le16toh cmdbuf 17 in
     if conn_itvl_min > conn_itvl_max \<or>
        uint conn_itvl_min < BLE_HCI_CONN_ITVL_MIN K \<or>
        uint conn_itvl_min > BLE_HCI_CONN_ITVL_MAX K \<or>
        uint conn_latency > BLE_HCI_CONN_LATENCY_MAX K
     then Inl BLE_ERR_INV_HCI_CMD_PARMS
     else
     let supervision_timeout = le16toh cmdbuf 19 in
     if uint supervision_timeout < BLE_HCI_CONN_SPVN_TIMEOUT_MIN K \<or>
        uint supervision_timeout > BLE_HCI_CONN_SPVN_TIMEOUT_MAX K
     then Inl BLE_ERR_INV_HCI_CMD_PARMS
     else
     if spvn_tmo_usecs supervision_timeout \<le> min_spvn_tmo_usecs conn_itvl_max conn_latency
     then Inl BLE_ERR_INV_HCI_CMD_PARMS
     else
     let min_ce_len = le16toh cmdbuf 21;
         max_ce_len = le16toh cmdbuf 23 in
     if min_ce_len > max_ce_len
     then Inl BLE_ERR_INV_HCI_CMD_PARMS
     else Inr \<lparr> hcc_scan_itvl = scan_itvl, hcc_scan_window = scan_window,
                hcc_filter_policy = filter_policy, hcc_peer_addr_type = peer_addr_type,
                hcc_peer_addr = peer_addr, hcc_own_addr_type = own_addr_type,
                hcc_conn_itvl_min = conn_itvl_min, hcc_conn_itvl_max = conn_itvl_max,
                hcc_conn_latency = conn_latency,
                hcc_supervision_timeout = supervision_timeout,
                hcc_min_ce_len = min_ce_len, hcc_max_ce_len = max_ce_len \<rparr>)"

section \<open>Connection records and controller state\<close>

datatype ble_ll_conn_state =
  BLE_LL_CONN_STATE_IDLE | BLE_LL_CONN_STATE_CREATED | BLE_LL_CONN_STATE_ESTABLISHED

text \<open>
  \<^verbatim>\<open>struct ble_ll_conn_sm\<close> (declared in controller/ble_ll_conn.h, not part of the source):
  the fields that the functions below read or write. \<open>conn_txq\<close> is the outbound queue, of
  which only emptiness is tested; \<open>completed_pkts\<close> has the width that \<^verbatim>\<open>htole16\<close> writes.
\<close>

record ble_ll_conn_sm =
  conn_handle :: u16
  conn_state :: ble_ll_conn_state
  own_addr_type :: u8
  access_addr :: u32
  crcinit :: u32
  tx_win_size :: u8
  tx_win_off :: u16
  conn_itvl :: u16
  slave_latency :: u16
  supervision_tmo :: u16
  chanmap :: bytes
  hop_inc :: u8
  master_sca :: u8
  completed_pkts :: u16
  conn_txq :: "nat list"
  disconnect_reason :: u8
  pending_ctrl_procs :: u16

text \<open>\<^verbatim>\<open>struct os_mbuf\<close> with its packet header: the two lengths and the data.\<close>

record os_mbuf =
  om_len :: nat
  omp_len :: nat
  om_data :: bytes

text \<open>
  The controller state. Connection records live in a store indexed by their address
  (\<open>connsm_at\<close>); the active list (an \<^verbatim>\<open>SLIST\<close>), the free list (a \<^verbatim>\<open>STAILQ\<close>) and the
  pending-creation pointer hold addresses, so that a record reached through two of them is
  one record. \<open>g_hci_cmd_pool\<close> is the list of free event blocks, each with the bytes it
  still holds; \<open>hci_events\<close> are the buffers handed to \<^verbatim>\<open>ble_ll_hci_event_send\<close>, oldest
  first. \<open>scan_pdu\<close> is the mbuf that \<^verbatim>\<open>ble_ll_scan_get_pdu\<close> returns (\<open>None\<close> for
  \<^verbatim>\<open>NULL\<close>), \<open>scan_sm\<close> the state of the scanning subsystem, which this file never
  looks into.
\<close>

record 'scan ll_state =
  g_ble_ll_conn_create_sm :: "nat option"
  g_ble_ll_conn_active_list :: "nat list"
  g_ble_ll_conn_free_list :: "nat list"
  connsm_at :: "nat \<Rightarrow> ble_ll_conn_sm"
  g_ble_ll_next_num_comp_pkt_evt :: u32
  g_dev_addr :: bytes
  g_random_addr :: bytes
  g_hci_cmd_pool :: "bytes list"
  hci_events :: "bytes list"
  scan_pdu :: "os_mbuf option"
  scan_sm :: 'scan

text \<open>
  The collaborators whose code is not part of the source and of which the spec says only
  what they are for: the scanning subsystem (its enabled query and its initiator start,
  which returns a status and may change the scanner), the initialisation of a record in the
  master role, and the start of the termination procedure on a record. They are parameters
  of the model.
\<close>

record 'scan ll_ext =
  ble_ll_scan_enabled :: "'scan \<Rightarrow> bool"
  ble_ll_scan_initiator_start :: "hci_create_conn \<Rightarrow> 'scan \<Rightarrow> int \<times> 'scan"
  ble_ll_conn_master_init :: "hci_create_conn \<Rightarrow> ble_ll_conn_sm \<Rightarrow> ble_ll_conn_sm"
  ble_ll_ctrl_terminate_start :: "ble_ll_conn_sm \<Rightarrow> ble_ll_conn_sm"

text \<open>
  Modelled from the spec: \<^verbatim>\<open>ble_ll_conn_sm_get\<close> (controller/ble_ll_conn.c, not part of the
  source) is the registry's "allocate-free-record": it takes the first record off the free
  list, \<open>None\<close> when there is none.
\<close>

definition ble_ll_conn_sm_get :: "'scan ll_state \<Rightarrow> (nat \<times> 'scan ll_state) option" where
  "ble_ll_conn_sm_get s =
     (case g_ble_ll_conn_free_list s of
        [] \<Rightarrow> None
      | connsm # rest \<Rightarrow> Some (connsm, s\<lparr>g_ble_ll_conn_free_list := rest\<rparr>))"

text \<open>
  Modelled from the spec: \<^verbatim>\<open>ble_ll_conn_sm_start\<close> (controller/ble_ll_conn.c, not part of
  the source) is the registry's "insert": it enters the record into the active list, from
  which line 370 removes it again.
\<close>

definition ble_ll_conn_sm_start :: "nat \<Rightarrow> 'scan ll_state \<Rightarrow> 'scan ll_state" where
  "ble_ll_conn_sm_start connsm s =
     s\<lparr>g_ble_ll_conn_active_list := connsm # g_ble_ll_conn_active_list s\<rparr>"

text \<open>
  Modelled from the spec: \<^verbatim>\<open>ble_ll_conn_find_active_conn\<close> (controller/ble_ll_conn.c, not
  part of the source) is the registry's "lookup-by-handle" among the active records.
\<close>

definition ble_ll_conn_find_active_conn :: "'scan ll_state \<Rightarrow> u16 \<Rightarrow> nat option" where
  "ble_ll_conn_find_active_conn s handle =
     find (\<lambda>c. conn_handle (connsm_at s c) = handle) (g_ble_ll_conn_active_list s)"

text \<open>
  \<^verbatim>\<open>SLIST_REMOVE\<close> of sys/queue.h unlinks the element; on a list that does not hold it the
  macro walks off the end, which is \<open>None\<close> here.
\<close>

definition SLIST_REMOVE :: "nat list \<Rightarrow> nat \<Rightarrow> nat list option" where
  "SLIST_REMOVE head elm = (if elm \<in> set head then Some (remove1 elm head) else None)"

text \<open>\<^verbatim>\<open>IS_PENDING_CTRL_PROC_M\<close> (controller/ble_ll_ctrl.h) tests one bit of the pending mask.\<close>

definition IS_PENDING_CTRL_PROC_M :: "ble_ll_conn_sm \<Rightarrow> nat \<Rightarrow> bool" where
  "IS_PENDING_CTRL_PROC_M connsm proc = bit (pending_ctrl_procs connsm) proc"

section \<open>The connect request\<close>

text \<open>
  \<^verbatim>\<open>ble_ll_conn_req_pdu_make\<close>, lines 46-94. The record, the two device addresses and the
  mbuf of the scanner are its inputs; the result is the mbuf as written, or \<open>None\<close> where
  one of the two assertions fails (no mbuf, or an own address type that is neither public
  nor random). \<open>dptr\<close> is advanced by 14 at line 80, so \<open>dptr[k]\<close> after it is byte
  \<open>adv + k\<close> of the data.
\<close>

definition ble_ll_conn_req_pdu_make ::
  "ble_ll_conn_sm \<Rightarrow> bytes \<Rightarrow> bytes \<Rightarrow> os_mbuf option \<Rightarrow> os_mbuf option" where
  "ble_ll_conn_req_pdu_make connsm dev_addr random_addr mo =
    (case mo of
       None \<Rightarrow> None
     | Some m0 \<Rightarrow>
        let m = m0\<lparr>om_len := BLE_CONNECT_REQ_LEN + BLE_LL_PDU_HDR_LEN,
                   omp_len := BLE_CONNECT_REQ_LEN + BLE_LL_PDU_HDR_LEN\<rparr>;
            pdu_type = BLE_ADV_PDU_TYPE_CONNECT_REQ;
            sel = (if own_addr_type connsm = BLE_HCI_ADV_OWN_ADDR_PUBLIC
                   then Some (pdu_type, dev_addr)
                   else if own_addr_type connsm = BLE_HCI_ADV_OWN_ADDR_RANDOM
                   then Some (pdu_type OR BLE_ADV_PDU_HDR_TXADD_RAND, random_addr)
                   else None)
        in (case sel of
              None \<Rightarrow> None
            | Some (pdu_type, addr) \<Rightarrow>
               let dptr = om_data m;
                   dptr = dptr(0 := pdu_type);
                   dptr = dptr(1 := of_nat BLE_CONNECT_REQ_LEN);
                   dptr = memcpy dptr BLE_LL_PDU_HDR_LEN addr BLE_DEV_ADDR_LEN;
                   adv = BLE_LL_CONN_REQ_ADVA_OFF + BLE_DEV_ADDR_LEN;
                   dptr = htole32 dptr adv (access_addr connsm);
                   dptr = dptr(adv + 4 := ucast (crcinit connsm));
                   dptr = dptr(adv + 5 := ucast (drop_bit 8 (crcinit connsm)));
                   dptr = dptr(adv + 6 := ucast (drop_bit 16 (crcinit connsm)));
                   dptr = dptr(adv + 7 := tx_win_size connsm);
                   dptr = htole16 dptr (adv + 8) (tx_win_off connsm);
                   dptr = htole16 dptr (adv + 10) (conn_itvl connsm);
                   dptr = htole16 dptr (adv + 12) (slave_latency connsm);
                   dptr = htole16 dptr (adv + 14) (supervision_tmo connsm);
                   dptr = memcpy dptr (adv + 16) (chanmap connsm) BLE_LL_CONN_CHMAP_LEN;
                   dptr = dptr(adv + 21 := hop_inc connsm OR master_sca connsm)
               in Some (m\<lparr>om_data := dptr\<rparr>)))"

section \<open>The create-connection command\<close>

text \<open>
  \<^verbatim>\<open>ble_ll_conn_create\<close>, lines 260-378. The result is the status returned and the state
  left behind; \<open>None\<close> is a failed assertion (in the connect-request encoder) or the
  removal of a record that is not on the active list.
\<close>

definition ble_ll_conn_create ::
  "ll_consts \<Rightarrow> 'scan ll_ext \<Rightarrow> bytes \<Rightarrow> 'scan ll_state \<Rightarrow> (int \<times> 'scan ll_state) option" where
  "ble_ll_conn_create K E cmdbuf s =
    (if g_ble_ll_conn_create_sm s \<noteq> None then Some (BLE_ERR_CMD_DISALLOWED, s)
     else if ble_ll_scan_enabled E (scan_sm s) then Some (BLE_ERR_CMD_DISALLOWED, s)
     else
      (case ble_ll_conn_create_parse K cmdbuf of
         Inl rc \<Rightarrow> Some (rc, s)
       | Inr hcc \<Rightarrow>
          (case ble_ll_conn_sm_get s of
             None \<Rightarrow> Some (BLE_ERR_CONN_LIMIT, s)
           | Some (connsm, s1) \<Rightarrow>
              let s2 = s1\<lparr>connsm_at := (connsm_at s1)
                           (connsm := ble_ll_conn_master_init E hcc (connsm_at s1 connsm))\<rparr>;
                  s3 = ble_ll_conn_sm_start connsm s2
              in (case ble_ll_conn_req_pdu_make (connsm_at s3 connsm)
                         (g_dev_addr s3) (g_random_addr s3) (scan_pdu s3) of
                    None \<Rightarrow> None
                  | Some m \<Rightarrow>
                     let s4 = s3\<lparr>scan_pdu := Some m\<rparr>;
                         (rc, sc) = ble_ll_scan_initiator_start E hcc (scan_sm s4);
                         s5 = s4\<lparr>scan_sm := sc\<rparr>
                     in if rc \<noteq> 0
                        then (case SLIST_REMOVE (g_ble_ll_conn_active_list s5) connsm of
                                None \<Rightarrow> None
                              | Some act \<Rightarrow>
                                 Some (rc, s5\<lparr>g_ble_ll_conn_active_list := act,
                                              g_ble_ll_conn_free_list :=
                                                g_ble_ll_conn_free_list s5 @ [connsm]\<rparr>))
                        else Some (rc, s5\<lparr>g_ble_ll_conn_create_sm := Some connsm\<rparr>)))))"

section \<open>The disconnect command\<close>

text \<open>
  \<^verbatim>\<open>ble_ll_conn_hci_disconnect_cmd\<close>, lines 424-475. \<open>None\<close> is the failed assertion of
  line 454.
\<close>

definition disconnect_reason_ok :: "u8 \<Rightarrow> bool" where
  "disconnect_reason_ok reason \<longleftrightarrow>
     uint reason = BLE_ERR_AUTH_FAIL \<or> uint reason = BLE_ERR_REM_USER_CONN_TERM \<or>
     uint reason = BLE_ERR_RD_CONN_TERM_RESRCS \<or> uint reason = BLE_ERR_RD_CONN_TERM_PWROFF \<or>
     uint reason = BLE_ERR_UNSUPP_FEATURE \<or> uint reason = BLE_ERR_UNIT_KEY_PAIRING \<or>
     uint reason = BLE_ERR_CONN_PARMS"

definition ble_ll_conn_hci_disconnect_cmd ::
  "ll_consts \<Rightarrow> 'scan ll_ext \<Rightarrow> bytes \<Rightarrow> 'scan ll_state \<Rightarrow> (int \<times> 'scan ll_state) option" where
  "ble_ll_conn_hci_disconnect_cmd K E cmdbuf s =
    (let handle = le16toh cmdbuf 0;
         reason = cmdbuf 2
     in if uint handle \<le> BLE_LL_CONN_MAX_CONN_HANDLE K
        then if disconnect_reason_ok reason
             then (case ble_ll_conn_find_active_conn s handle of
                     Some connsm \<Rightarrow>
                       if disconnect_reason (connsm_at s connsm) \<noteq> 0
                       then Some (BLE_ERR_CMD_DISALLOWED, s)
                       else if IS_PENDING_CTRL_PROC_M (connsm_at s connsm)
                                 (BLE_LL_CTRL_PROC_TERMINATE K)
                       then None
                       else Some (BLE_ERR_SUCCESS,
                              s\<lparr>connsm_at := (connsm_at s)
                                 (connsm := ble_ll_ctrl_terminate_start E
                                    ((connsm_at s connsm)\<lparr>disconnect_reason := reason\<rparr>))\<rparr>)
                   | None \<Rightarrow> Some (BLE_ERR_UNK_CONN_ID, s))
             else Some (BLE_ERR_INV_HCI_CMD_PARMS, s)
        else Some (BLE_ERR_INV_HCI_CMD_PARMS, s))"

section \<open>The batched completed-packets report\<close>

text \<open>
  The locals of \<^verbatim>\<open>ble_ll_conn_num_comp_pkts_event_send\<close> that live across the loop.
  \<open>handle_ptr\<close> and \<open>comp_pkt_ptr\<close> point into \<open>evbuf\<close> and are kept as offsets from its
  start; while \<open>evbuf\<close> is \<^verbatim>\<open>NULL\<close> they are not read.
\<close>

record ncp_loop =
  evbuf :: "bytes option"
  handles :: u8
  handle_ptr :: nat
  comp_pkt_ptr :: nat
  event_sent :: bool

definition ncp_init :: ncp_loop where
  "ncp_init = \<lparr>evbuf = None, handles = 0, handle_ptr = 0, comp_pkt_ptr = 0,
               event_sent = False\<rparr>"

text \<open>
  \<^verbatim>\<open>os_memblock_get(&g_hci_cmd_pool)\<close> takes the first free block, \<open>None\<close> when the pool is
  empty; \<^verbatim>\<open>ble_ll_hci_event_send\<close> hands the buffer over to the host transport.
\<close>

definition os_memblock_get :: "'scan ll_state \<Rightarrow> (bytes \<times> 'scan ll_state) option" where
  "os_memblock_get s =
     (case g_hci_cmd_pool s of
        [] \<Rightarrow> None
      | b # rest \<Rightarrow> Some (b, s\<lparr>g_hci_cmd_pool := rest\<rparr>))"

definition ble_ll_hci_event_send :: "bytes \<Rightarrow> 'scan ll_state \<Rightarrow> 'scan ll_state" where
  "ble_ll_hci_event_send ev s = s\<lparr>hci_events := hci_events s @ [ev]\<rparr>"

text \<open>Lines 168-169: the records that the loop looks at.\<close>

definition ncp_eligible :: "'scan ll_state \<Rightarrow> nat \<Rightarrow> bool" where
  "ncp_eligible s connsm \<longleftrightarrow>
     conn_state (connsm_at s connsm) \<noteq> BLE_LL_CONN_STATE_IDLE \<and>
     (completed_pkts (connsm_at s connsm) \<noteq> 0 \<or> conn_txq (connsm_at s connsm) \<noteq> [])"

text \<open>Lines 171-179: a buffer is fetched when none is held; \<open>None\<close> is the \<^verbatim>\<open>break\<close>.\<close>

definition ncp_get_buf ::
  "'scan ll_state \<times> ncp_loop \<Rightarrow> (bytes \<times> 'scan ll_state \<times> ncp_loop) option" where
  "ncp_get_buf sl =
     (case sl of (s, l) \<Rightarrow>
        (case evbuf l of
           Some b \<Rightarrow> Some (b, s, l)
         | None \<Rightarrow>
            (case os_memblock_get s of
               None \<Rightarrow> None
             | Some (b, s1) \<Rightarrow>
                Some (b, s1, l\<lparr>evbuf := Some b, handles := 0, handle_ptr := 3,
                               comp_pkt_ptr := 3 + 2 * 60\<rparr>))))"

text \<open>The three header bytes of the event, lines 194-196 and 207-209.\<close>

definition ncp_header :: "bytes \<Rightarrow> u8 \<Rightarrow> bytes" where
  "ncp_header b h =
     b(0 := BLE_HCI_EVCODE_NUM_COMP_PKTS, 1 := of_nat (unat h * 2 * 2 + 1), 2 := h)"

text \<open>
  Lines 181-201, entered with a buffer held: the handle and the count are written, the
  counter is cleared, and a buffer that has reached 60 handles is sent.
\<close>

definition ncp_add :: "nat \<Rightarrow> bytes \<Rightarrow> 'scan ll_state \<times> ncp_loop \<Rightarrow> 'scan ll_state \<times> ncp_loop" where
  "ncp_add connsm b0 sl =
     (case sl of (s, l) \<Rightarrow>
        let b = htole16 b0 (handle_ptr l) (conn_handle (connsm_at s connsm));
            b = htole16 b (comp_pkt_ptr l) (completed_pkts (connsm_at s connsm));
            s = s\<lparr>connsm_at := (connsm_at s)
                    (connsm := (connsm_at s connsm)\<lparr>completed_pkts := 0\<rparr>)\<rparr>;
            l = l\<lparr>evbuf := Some b, handle_ptr := handle_ptr l + 2,
                  comp_pkt_ptr := comp_pkt_ptr l + 2, handles := handles l + 1\<rparr>
        in if handles l = 60
           then (ble_ll_hci_event_send (ncp_header b (handles l)) s,
                 l\<lparr>evbuf := None, handles := 0, event_sent := True\<rparr>)
           else (s, l))"

text \<open>Lines 163-203: \<^verbatim>\<open>SLIST_FOREACH\<close> over the active list, left early by the \<^verbatim>\<open>break\<close>.\<close>

fun ncp_foreach ::
  "nat list \<Rightarrow> 'scan ll_state \<times> ncp_loop \<Rightarrow> 'scan ll_state \<times> ncp_loop" where
  "ncp_foreach [] sl = sl"
| "ncp_foreach (connsm # rest) sl =
     (if ncp_eligible (fst sl) connsm
      then (case ncp_get_buf sl of
              None \<Rightarrow> sl
            | Some (b, sl1) \<Rightarrow> ncp_foreach rest (ncp_add connsm b sl1))
      else ncp_foreach rest sl)"

text \<open>Lines 205-216: what is left in the buffer is sent, the counts moved behind the handles.\<close>

definition ncp_flush :: "'scan ll_state \<times> ncp_loop \<Rightarrow> 'scan ll_state \<times> ncp_loop" where
  "ncp_flush sl =
     (case sl of (s, l) \<Rightarrow>
        (case evbuf l of
           None \<Rightarrow> (s, l)
         | Some b0 \<Rightarrow>
            let b = ncp_header b0 (handles l);
                b = (if handles l < 60
                     then memmove b (handle_ptr l) (3 + 60 * 2) (unat (handles l) * 2)
                     else b)
            in (ble_ll_hci_event_send b s, l\<lparr>event_sent := True\<rparr>)))"

text \<open>
  \<^verbatim>\<open>ble_ll_conn_num_comp_pkts_event_send\<close>, lines 141-222. \<^verbatim>\<open>os_time_get\<close> is called twice:
  \<open>now\<close> is what it returns at the rate check of line 152, \<open>now'\<close> what it returns at
  line 219.
\<close>

definition ble_ll_conn_num_comp_pkts_event_send ::
  "ll_consts \<Rightarrow> u32 \<Rightarrow> u32 \<Rightarrow> 'scan ll_state \<Rightarrow> 'scan ll_state" where
  "ble_ll_conn_num_comp_pkts_event_send K now now' s =
     (if g_ble_ll_next_num_comp_pkt_evt s - now < BLE_LL_NUM_COMP_PKT_RATE K then s
      else (case ncp_flush (ncp_foreach (g_ble_ll_conn_active_list s) (s, ncp_init)) of
              (s1, l) \<Rightarrow>
                if event_sent l
                then s1\<lparr>g_ble_ll_next_num_comp_pkt_evt := now' + BLE_LL_NUM_COMP_PKT_RATE K\<rparr>
                else s1))"

text \<open>
  Modelled from the spec: the layout of a report as the host reads it. Byte 2 is the number
  \<open>N\<close> of handles, the \<open>N\<close> 16-bit handles follow from byte 3, and the \<open>N\<close> 16-bit counts
  follow the handles immediately.
\<close>

definition ncp_decode :: "bytes \<Rightarrow> (u16 \<times> u16) list" where
  "ncp_decode ev =
     map (\<lambda>i. (le16toh ev (3 + 2 * i), le16toh ev (3 + 2 * unat (ev 2) + 2 * i)))
         [0..<unat (ev 2)]"

text \<open>The (handle, count) pair that a record contributes to a report.\<close>

definition ncp_entry :: "'scan ll_state \<Rightarrow> nat \<Rightarrow> u16 \<times> u16" where
  "ncp_entry s connsm = (conn_handle (connsm_at s connsm), completed_pkts (connsm_at s connsm))"

subsection \<open>The report as a function of the entries\<close>

text \<open>
  What the loop does with the (handle, count) pairs of the eligible records, apart from
  bytes: \<open>pend\<close> are the pairs in the buffer held (none when no buffer is held), \<open>pool\<close>
  the free event blocks. The result is the list of full reports sent, the pairs left in the
  buffer, the blocks left, and the number of records taken before the loop ended.
\<close>

fun ncp_batch :: "'a list \<Rightarrow> 'b list \<Rightarrow> 'a list \<Rightarrow> 'a list list \<times> 'a list \<times> 'b list \<times> nat" where
  "ncp_batch pend pool [] = ([], pend, pool, 0)"
| "ncp_batch pend pool (p # ps) =
     (if pend = [] \<and> pool = [] then ([], pend, pool, 0)
      else let pool1 = (if pend = [] then tl pool else pool) in
        if length pend + 1 = 60
        then (case ncp_batch [] pool1 ps of (F, P, pool2, n) \<Rightarrow> ((pend @ [p]) # F, P, pool2, Suc n))
        else (case ncp_batch (pend @ [p]) pool1 ps of (F, P, pool2, n) \<Rightarrow> (F, P, pool2, Suc n)))"

text \<open>The records of the list \<open>w\<close> with their counter cleared, all others as they are.\<close>

definition ncp_reset :: "nat list \<Rightarrow> (nat \<Rightarrow> ble_ll_conn_sm) \<Rightarrow> nat \<Rightarrow> ble_ll_conn_sm" where
  "ncp_reset w f = (\<lambda>c. if c \<in> set w then (f c)\<lparr>completed_pkts := 0\<rparr> else f c)"

subsection \<open>The buffer between two iterations\<close>

text \<open>
  \<open>ncp_staged b pend\<close>: the buffer holds the handles of \<open>pend\<close> from byte 3 and their
  counts from byte 123. \<open>ncp_held b l pend\<close>: the loop holds buffer \<open>b\<close> with fewer than 60
  pairs, and its counter and pointers stand behind them. \<open>ncp_inv l pend\<close>: the locals
  between two iterations, with no buffer and no pair or with a buffer and at least one.
\<close>

definition ncp_staged :: "bytes \<Rightarrow> (u16 \<times> u16) list \<Rightarrow> bool" where
  "ncp_staged b pend \<longleftrightarrow>
     (\<forall>i < length pend. le16toh b (3 + 2 * i) = fst (pend ! i) \<and>
                         le16toh b (123 + 2 * i) = snd (pend ! i))"

definition ncp_held :: "bytes \<Rightarrow> ncp_loop \<Rightarrow> (u16 \<times> u16) list \<Rightarrow> bool" where
  "ncp_held b l pend \<longleftrightarrow>
     evbuf l = Some b \<and> length pend < 60 \<and> handles l = of_nat (length pend) \<and>
     handle_ptr l = 3 + 2 * length pend \<and> comp_pkt_ptr l = 123 + 2 * length pend \<and>
     ncp_staged b pend"

definition ncp_inv :: "ncp_loop \<Rightarrow> (u16 \<times> u16) list \<Rightarrow> bool" where
  "ncp_inv l pend \<longleftrightarrow>
     (case evbuf l of None \<Rightarrow> pend = [] | Some b \<Rightarrow> pend \<noteq> [] \<and> ncp_held b l pend)"

section \<open>Checks and repetition, as the spec words them\<close>

text \<open>
  A create-connection command fails a parameter check (steps 2 to 9 of the validation
  sequence): scan interval or window out of bounds or interval below window; filter policy
  above its maximum; with filter policy 0, peer address type above its maximum; own address
  type above its maximum; connection interval minimum above the maximum given, below the
  protocol minimum or above the protocol maximum, or latency above its maximum; supervision
  timeout out of bounds; the timeout, in microseconds (units of 10 ms, so times 10000), not
  strictly above 2 * conn_itvl_max * 1250 * (1 + conn_latency), the product taken in the
  integers; minimum connection-event length above the maximum.
\<close>

definition create_check_fails :: "ll_consts \<Rightarrow> bytes \<Rightarrow> bool" where
  "create_check_fails K cmdbuf \<longleftrightarrow>
     uint (le16toh cmdbuf 0) < BLE_HCI_SCAN_ITVL_MIN K \<or>
     BLE_HCI_SCAN_ITVL_MAX K < uint (le16toh cmdbuf 0) \<or>
     uint (le16toh cmdbuf 2) < BLE_HCI_SCAN_WINDOW_MIN K \<or>
     BLE_HCI_SCAN_WINDOW_MAX K < uint (le16toh cmdbuf 2) \<or>
     le16toh cmdbuf 0 < le16toh cmdbuf 2 \<or>
     BLE_HCI_INITIATOR_FILT_POLICY_MAX K < uint (cmdbuf 4) \<or>
     (cmdbuf 4 = 0 \<and> BLE_HCI_CONN_PEER_ADDR_MAX K < uint (cmdbuf 5)) \<or>
     BLE_HCI_ADV_OWN_ADDR_MAX K < uint (cmdbuf 12) \<or>
     le16toh cmdbuf 15 < le16toh cmdbuf 13 \<or>
     uint (le16toh cmdbuf 13) < BLE_HCI_CONN_ITVL_MIN K \<or>
     BLE_HCI_CONN_ITVL_MAX K < uint (le16toh cmdbuf 13) \<or>
     BLE_HCI_CONN_LATENCY_MAX K < uint (le16toh cmdbuf 17) \<or>
     uint (le16toh cmdbuf 19) < BLE_HCI_CONN_SPVN_TIMEOUT_MIN K \<or>
     BLE_HCI_CONN_SPVN_TIMEOUT_MAX K < uint (le16toh cmdbuf 19) \<or>
     uint (le16toh cmdbuf 19) * 10000
       \<le> 2 * uint (le16toh cmdbuf 15) * 1250 * (1 + uint (le16toh cmdbuf 17)) \<or>
     le16toh cmdbuf 23 < le16toh cmdbuf 21"

text \<open>
  The same command issued \<open>n\<close> times in a row: the statuses returned, in order, and the
  state after the last one; \<open>None\<close> when one of the calls fails an assertion.
\<close>

fun repeat_cmd :: "('s \<Rightarrow> (int \<times> 's) option) \<Rightarrow> nat \<Rightarrow> 's \<Rightarrow> (int list \<times> 's) option" where
  "repeat_cmd f 0 s = Some ([], s)"
| "repeat_cmd f (Suc n) s =
     (case f s of
        None \<Rightarrow> None
      | Some (rc, s1) \<Rightarrow>
         (case repeat_cmd f n s1 of
            None \<Rightarrow> None
          | Some (rcs, s2) \<Rightarrow> Some (rc # rcs, s2)))"

section \<open>Concrete records, states and commands\<close>

definition demo_conn :: ble_ll_conn_sm where
  "demo_conn = \<lparr>conn_handle = 1, conn_state = BLE_LL_CONN_STATE_ESTABLISHED,
     own_addr_type = 0, access_addr = 0x8e89bed6, crcinit = 0x123456, tx_win_size = 2,
     tx_win_off = 0, conn_itvl = 40, slave_latency = 0, supervision_tmo = 100,
     chanmap = buf_of [0xff, 0xff, 0xff, 0xff, 0x1f], hop_inc = 9, master_sca = 0xa0,
     completed_pkts = 3, conn_txq = [7], disconnect_reason = 0, pending_ctrl_procs = 0\<rparr>"

text \<open>
  A controller with three active connections (records 0, 1, 2 with handles 1, 2, 3), two
  free records, two free event blocks and nothing pending; the scanner state is its enabled
  flag.
\<close>

definition demo_state :: "bool ll_state" where
  "demo_state = \<lparr>g_ble_ll_conn_create_sm = None, g_ble_ll_conn_active_list = [0, 1, 2],
     g_ble_ll_conn_free_list = [3, 4],
     connsm_at = (\<lambda>i. demo_conn\<lparr>conn_handle := of_nat i + 1\<rparr>),
     g_ble_ll_next_num_comp_pkt_evt = 0,
     g_dev_addr = buf_of [1, 2, 3, 4, 5, 6], g_random_addr = buf_of [7, 8, 9, 10, 11, 12],
     g_hci_cmd_pool = [\<lambda>i. 0xaa, \<lambda>i. 0xbb], hci_events = [],
     scan_pdu = Some \<lparr>om_len = 0, omp_len = 0, om_data = (\<lambda>i. 0xee)\<rparr>,
     scan_sm = False\<rparr>"

definition demo_master_init :: "hci_create_conn \<Rightarrow> ble_ll_conn_sm \<Rightarrow> ble_ll_conn_sm" where
  "demo_master_init hcc connsm =
     connsm\<lparr>conn_state := BLE_LL_CONN_STATE_IDLE, own_addr_type := hcc_own_addr_type hcc,
            conn_itvl := hcc_conn_itvl_max hcc, slave_latency := hcc_conn_latency hcc,
            supervision_tmo := hcc_supervision_timeout hcc, completed_pkts := 0,
            conn_txq := [], disconnect_reason := 0, pending_ctrl_procs := 0\<rparr>"

text \<open>Collaborators whose initiator start succeeds, and ones whose start is refused.\<close>

definition demo_ext :: "bool ll_ext" where
  "demo_ext = \<lparr>ble_ll_scan_enabled = (\<lambda>sc. sc),
     ble_ll_scan_initiator_start = (\<lambda>hcc sc. (0, True)),
     ble_ll_conn_master_init = demo_master_init,
     ble_ll_ctrl_terminate_start =
       (\<lambda>connsm. connsm\<lparr>pending_ctrl_procs := pending_ctrl_procs connsm OR 32\<rparr>)\<rparr>"

definition demo_ext_fail :: "bool ll_ext" where
  "demo_ext_fail = demo_ext\<lparr>ble_ll_scan_initiator_start := (\<lambda>hcc sc. (0x0c, sc))\<rparr>"

text \<open>
  Create-connection commands (25 bytes): scan interval and window 16, filter policy 0, peer
  address 1..6 of public type, own address public, connection-event lengths 0, and

  \<^item> \<open>cmd_create_ok\<close>: interval 24..40, latency 0, supervision timeout 11;
  \<^item> \<open>cmd_create_tmo10\<close>: the same with supervision timeout 10;
  \<^item> \<open>cmd_create_wrap\<close>: interval 6..3436, latency 499, supervision timeout 10;
  \<^item> \<open>cmd_create_bad\<close>: interval minimum 41 above the maximum 40.
\<close>

definition cmd_create :: "u8 list \<Rightarrow> bytes" where
  "cmd_create parms =
     buf_of ([0x10, 0x00, 0x10, 0x00, 0x00, 0x00, 1, 2, 3, 4, 5, 6, 0x00] @ parms @
             [0x00, 0x00, 0x00, 0x00])"

definition cmd_create_ok :: bytes where
  "cmd_create_ok = cmd_create [0x18, 0x00, 0x28, 0x00, 0x00, 0x00, 0x0b, 0x00]"

definition cmd_create_tmo10 :: bytes where
  "cmd_create_tmo10 = cmd_create [0x18, 0x00, 0x28, 0x00, 0x00, 0x00, 0x0a, 0x00]"

definition cmd_create_wrap :: bytes where
  "cmd_create_wrap = cmd_create [0x06, 0x00, 0x6c, 0x0d, 0xf3, 0x01, 0x0a, 0x00]"

definition cmd_create_bad :: bytes where
  "cmd_create_bad = cmd_create [0x29, 0x00, 0x28, 0x00, 0x00, 0x00, 0x0b, 0x00]"


text \<open>
  Disconnect commands (3 bytes) for handle 2, which is the active record 1 of
  \<open>demo_state\<close>: with reason 0x13 (remote user terminated connection), with reason 0x00,
  and with reason 0x13 for handle 0x0f00.
\<close>

definition cmd_disconnect_ok :: bytes where
  "cmd_disconnect_ok = buf_of [0x02, 0x00, 0x13]"

definition cmd_disconnect_reason0 :: bytes where
  "cmd_disconnect_reason0 = buf_of [0x02, 0x00, 0x00]"

definition cmd_disconnect_handle_f00 :: bytes where
  "cmd_disconnect_handle_f00 = buf_of [0x00, 0x0f, 0x13]"

text \<open>\<open>demo_state\<close> with a disconnect (reason 0x16) already under way on record 1.\<close>

definition demo_state_disconnecting :: "bool ll_state" where
  "demo_state_disconnecting =
     demo_state\<lparr>connsm_at := (connsm_at demo_state)
       (1 := (connsm_at demo_state 1)\<lparr>disconnect_reason := 0x16, pending_ctrl_procs := 32\<rparr>)\<rparr>"

text \<open>
  \<open>demo_state\<close> with 61 active records (0 to 60, handles 1 to 61), all of them eligible,
  and free records 61 and 62: with the two free event blocks of \<open>demo_state\<close>, with
  none, and with one.
\<close>

definition demo_state61 :: "bool ll_state" where
  "demo_state61 = demo_state\<lparr>g_ble_ll_conn_active_list := [0..<61],
                              g_ble_ll_conn_free_list := [61, 62]\<rparr>"

definition demo_state61_nobuf :: "bool ll_state" where
  "demo_state61_nobuf = demo_state61\<lparr>g_hci_cmd_pool := []\<rparr>"

definition demo_state61_onebuf :: "bool ll_state" where
  "demo_state61_onebuf = demo_state61\<lparr>g_hci_cmd_pool := [\<lambda>i. 0xcc]\<rparr>"

section \<open>Little-endian access\<close>

lemmas ble_err_defs =
  BLE_ERR_SUCCESS_def BLE_ERR_UNK_CONN_ID_def BLE_ERR_AUTH_FAIL_def BLE_ERR_CONN_LIMIT_def
  BLE_ERR_CMD_DISALLOWED_def BLE_ERR_INV_HCI_CMD_PARMS_def BLE_ERR_REM_USER_CONN_TERM_def
  BLE_ERR_RD_CONN_TERM_RESRCS_def BLE_ERR_RD_CONN_TERM_PWROFF_def BLE_ERR_UNSUPP_FEATURE_def
  BLE_ERR_UNIT_KEY_PAIRING_def BLE_ERR_CONN_PARMS_def

lemmas ble_layout_defs =
  BLE_LL_PDU_HDR_LEN_def BLE_DEV_ADDR_LEN_def BLE_LL_CONN_REQ_ADVA_OFF_def
  BLE_CONNECT_REQ_LEN_def BLE_LL_CONN_CHMAP_LEN_def BLE_ADV_PDU_TYPE_CONNECT_REQ_def
  BLE_ADV_PDU_HDR_TXADD_RAND_def BLE_HCI_ADV_OWN_ADDR_PUBLIC_def
  BLE_HCI_ADV_OWN_ADDR_RANDOM_def

lemmas demo_cmd_defs =
  cmd_create_def cmd_create_ok_def cmd_create_tmo10_def cmd_create_wrap_def
  cmd_create_bad_def buf_of_def le16toh_def

lemma le16toh_htole16_same: "le16toh (htole16 b off x) off = x"
  unfolding le16toh_def htole16_def
  by (simp, rule bit_word_eqI) (auto simp: bit_simps)

lemma le16toh_htole16_other:
  "off' + 1 < off \<or> off + 1 < off' \<Longrightarrow> le16toh (htole16 b off x) off' = le16toh b off'"
  unfolding le16toh_def htole16_def by auto

section \<open>The create-connection command\<close>

subsection \<open>The supervision-timeout cross-check\<close>

text \<open>
  Where the product does not leave 32 bits, the check of lines 338-345 is the comparison
  of the two durations in microseconds.
\<close>

lemma spvn_tmo_usecs_uint: "uint (spvn_tmo_usecs t) = uint t * 10000"
proof -
  have "uint t < 65536" using uint_bounded [of t] by simp
  moreover have "0 \<le> uint t" by simp
  ultimately have "uint t * 10000 mod 4294967296 = uint t * 10000"
    by (intro mod_pos_pos_trivial) auto
  then show ?thesis
    by (simp add: spvn_tmo_usecs_def BLE_HCI_CONN_SPVN_TMO_UNITS_def uint_word_ariths
        uint_up_ucast is_up)
qed

lemma min_spvn_tmo_usecs_uint:
  "uint (min_spvn_tmo_usecs m l) = (2 * uint m * 1250 * (1 + uint l)) mod 2 ^ 32"
proof -
  have "uint (min_spvn_tmo_usecs m l)
        = (uint m * 2 * 1250 mod 4294967296 * ((1 + uint l) mod 4294967296)) mod 4294967296"
    by (simp add: min_spvn_tmo_usecs_def BLE_LL_CONN_ITVL_USECS_def uint_word_ariths
        uint_up_ucast is_up mod_simps)
  also have "\<dots> = (uint m * 2 * 1250 * (1 + uint l)) mod 4294967296"
    by (simp add: mod_simps)
  finally show ?thesis by (simp add: mult.commute mult.left_commute)
qed

lemma spvn_check_exact:
  assumes "2 * uint m * 1250 * (1 + uint l) < 2 ^ 32"
  shows "spvn_tmo_usecs t \<le> min_spvn_tmo_usecs m l
         \<longleftrightarrow> uint t * 10000 \<le> 2 * uint m * 1250 * (1 + uint l)"
proof -
  have "0 \<le> 2 * uint m * 1250 * (1 + uint l)" by simp
  with assms have "(2 * uint m * 1250 * (1 + uint l)) mod 2 ^ 32 = 2 * uint m * 1250 * (1 + uint l)"
    by (intro mod_pos_pos_trivial) auto
  then show ?thesis
    by (simp add: word_le_def spvn_tmo_usecs_uint min_spvn_tmo_usecs_uint)
qed

text \<open>Interval maximum 40, latency 0: a timeout of 10 units is rejected, 11 units pass.\<close>

lemma spvn_check_40_0:
  "spvn_tmo_usecs 10 \<le> min_spvn_tmo_usecs 40 0 \<and> \<not> spvn_tmo_usecs 11 \<le> min_spvn_tmo_usecs 40 0"
  by (simp add: spvn_tmo_usecs_def min_spvn_tmo_usecs_def BLE_HCI_CONN_SPVN_TMO_UNITS_def
      BLE_LL_CONN_ITVL_USECS_def)

lemma create_parse_tmo10:
  "ble_ll_conn_create_parse ble_consts cmd_create_tmo10 = Inl BLE_ERR_INV_HCI_CMD_PARMS"
  by (simp add: ble_ll_conn_create_parse_def demo_cmd_defs ble_consts_def Let_def
      spvn_tmo_usecs_def min_spvn_tmo_usecs_def BLE_HCI_CONN_SPVN_TMO_UNITS_def
      BLE_LL_CONN_ITVL_USECS_def BLE_DEV_ADDR_LEN_def)

lemma create_parse_ok:
  "ble_ll_conn_create_parse ble_consts cmd_create_ok =
     Inr \<lparr>hcc_scan_itvl = 16, hcc_scan_window = 16, hcc_filter_policy = 0,
          hcc_peer_addr_type = Some 0, hcc_peer_addr = Some [1, 2, 3, 4, 5, 6],
          hcc_own_addr_type = 0, hcc_conn_itvl_min = 24, hcc_conn_itvl_max = 40,
          hcc_conn_latency = 0, hcc_supervision_timeout = 11,
          hcc_min_ce_len = 0, hcc_max_ce_len = 0\<rparr>"
  by (simp add: ble_ll_conn_create_parse_def demo_cmd_defs ble_consts_def Let_def
      spvn_tmo_usecs_def min_spvn_tmo_usecs_def BLE_HCI_CONN_SPVN_TMO_UNITS_def
      BLE_LL_CONN_ITVL_USECS_def BLE_DEV_ADDR_LEN_def upt_rec)

lemma create_parse_wrap:
  "ble_ll_conn_create_parse ble_consts cmd_create_wrap =
     Inr \<lparr>hcc_scan_itvl = 16, hcc_scan_window = 16, hcc_filter_policy = 0,
          hcc_peer_addr_type = Some 0, hcc_peer_addr = Some [1, 2, 3, 4, 5, 6],
          hcc_own_addr_type = 0, hcc_conn_itvl_min = 6, hcc_conn_itvl_max = 3436,
          hcc_conn_latency = 499, hcc_supervision_timeout = 10,
          hcc_min_ce_len = 0, hcc_max_ce_len = 0\<rparr>"
  by (simp add: ble_ll_conn_create_parse_def demo_cmd_defs ble_consts_def Let_def
      spvn_tmo_usecs_def min_spvn_tmo_usecs_def BLE_HCI_CONN_SPVN_TMO_UNITS_def
      BLE_LL_CONN_ITVL_USECS_def BLE_DEV_ADDR_LEN_def upt_rec)

text \<open>
  C1. The command is to be rejected unless the supervision timeout, in microseconds,
  exceeds 2 * conn_itvl_max * 1250 * (1 + conn_latency). The command \<open>cmd_create_wrap\<close>
  passes every earlier check with interval maximum 3436, latency 499 and timeout 10: the
  timeout is 100000 microseconds, the minimum 4295000000, which is 32704 in 32 bits. The
  command is not rejected: it is parsed to the end, and the controller starts the creation
  with record 3.
\<close>

theorem create_accepts_timeout_below_minimum:
  "uint (le16toh cmd_create_wrap 19) * 10000
     \<le> 2 * uint (le16toh cmd_create_wrap 15) * 1250 * (1 + uint (le16toh cmd_create_wrap 17))
   \<and> min_spvn_tmo_usecs (le16toh cmd_create_wrap 15) (le16toh cmd_create_wrap 17) = 32704
   \<and> (\<exists>hcc. ble_ll_conn_create_parse ble_consts cmd_create_wrap = Inr hcc)
   \<and> (\<exists>s'. ble_ll_conn_create ble_consts demo_ext cmd_create_wrap demo_state
             = Some (BLE_ERR_SUCCESS, s') \<and> g_ble_ll_conn_create_sm s' = Some 3)"
proof -
  have a: "uint (le16toh cmd_create_wrap 19) * 10000
     \<le> 2 * uint (le16toh cmd_create_wrap 15) * 1250 * (1 + uint (le16toh cmd_create_wrap 17))"
    by (simp add: demo_cmd_defs)
  have b: "min_spvn_tmo_usecs (le16toh cmd_create_wrap 15) (le16toh cmd_create_wrap 17) = 32704"
    by (simp add: demo_cmd_defs min_spvn_tmo_usecs_def BLE_LL_CONN_ITVL_USECS_def)
  have c: "\<exists>hcc. ble_ll_conn_create_parse ble_consts cmd_create_wrap = Inr hcc"
    by (simp add: create_parse_wrap)
  have d: "\<exists>s'. ble_ll_conn_create ble_consts demo_ext cmd_create_wrap demo_state
             = Some (BLE_ERR_SUCCESS, s') \<and> g_ble_ll_conn_create_sm s' = Some 3"
    by (simp add: ble_ll_conn_create_def create_parse_wrap demo_state_def demo_ext_def
        ble_ll_conn_sm_get_def ble_ll_conn_sm_start_def ble_ll_conn_req_pdu_make_def
        demo_master_init_def demo_conn_def ble_layout_defs BLE_ERR_SUCCESS_def Let_def)
  from a b c d show ?thesis by blast
qed

subsection \<open>Rejections leave the state alone\<close>

text \<open>
  C3. While a creation is pending or scanning is enabled, the command returns "command
  disallowed" whatever its parameter bytes are, and the state is the one it was given.
\<close>

theorem create_disallowed:
  assumes "g_ble_ll_conn_create_sm s \<noteq> None \<or> ble_ll_scan_enabled E (scan_sm s)"
  shows "ble_ll_conn_create K E cmdbuf s = Some (BLE_ERR_CMD_DISALLOWED, s)"
  using assms by (auto simp: ble_ll_conn_create_def)

theorem create_disallowed_witness:
  "g_ble_ll_conn_create_sm (demo_state\<lparr>g_ble_ll_conn_create_sm := Some 2\<rparr>) = Some 2
   \<and> ble_ll_conn_create ble_consts demo_ext cmd_create_ok
        (demo_state\<lparr>g_ble_ll_conn_create_sm := Some 2\<rparr>)
      = Some (BLE_ERR_CMD_DISALLOWED, demo_state\<lparr>g_ble_ll_conn_create_sm := Some 2\<rparr>)"
proof -
  have h: "g_ble_ll_conn_create_sm (demo_state\<lparr>g_ble_ll_conn_create_sm := Some 2\<rparr>) \<noteq> None
      \<or> ble_ll_scan_enabled demo_ext (scan_sm (demo_state\<lparr>g_ble_ll_conn_create_sm := Some 2\<rparr>))"
    by simp
  show ?thesis
    using create_disallowed [OF h, of ble_consts cmd_create_ok] by simp
qed

text \<open>
  Where the minimum does not leave 32 bits, the checks of the command are the checks
  listed: a command that fails one is rejected with the state as it was given, and a command
  that fails none is parsed to the end.
\<close>

lemma create_parse_rejects:
  assumes "create_check_fails K cmdbuf"
    and "2 * uint (le16toh cmdbuf 15) * 1250 * (1 + uint (le16toh cmdbuf 17)) < 2 ^ 32"
  shows "ble_ll_conn_create_parse K cmdbuf = Inl BLE_ERR_INV_HCI_CMD_PARMS"
proof -
  note x = spvn_check_exact [OF assms(2), of "le16toh cmdbuf 19"]
  show ?thesis
    using assms(1)
    unfolding create_check_fails_def ble_ll_conn_create_parse_def Let_def x
    by (auto simp: not_less)
qed

lemma create_parse_accepts:
  assumes "\<not> create_check_fails K cmdbuf"
    and "2 * uint (le16toh cmdbuf 15) * 1250 * (1 + uint (le16toh cmdbuf 17)) < 2 ^ 32"
  shows "\<exists>hcc. ble_ll_conn_create_parse K cmdbuf = Inr hcc"
proof -
  note x = spvn_check_exact [OF assms(2), of "le16toh cmdbuf 19"]
  show ?thesis
    using assms(1)
    unfolding create_check_fails_def ble_ll_conn_create_parse_def Let_def x
    by (auto simp: not_less)
qed

lemma create_invalid_no_mutation_no_wrap:
  assumes "g_ble_ll_conn_create_sm s = None" and "\<not> ble_ll_scan_enabled E (scan_sm s)"
    and "create_check_fails K cmdbuf"
    and "2 * uint (le16toh cmdbuf 15) * 1250 * (1 + uint (le16toh cmdbuf 17)) < 2 ^ 32"
  shows "ble_ll_conn_create K E cmdbuf s = Some (BLE_ERR_INV_HCI_CMD_PARMS, s)"
  using assms(1,2) create_parse_rejects [OF assms(3,4)]
  by (simp add: ble_ll_conn_create_def)

text \<open>An interval minimum above the maximum: rejected, and \<open>demo_state\<close> is left as it was.\<close>

lemma create_invalid_no_mutation_bad:
  "create_check_fails ble_consts cmd_create_bad \<and>
   ble_ll_conn_create ble_consts demo_ext cmd_create_bad demo_state
     = Some (BLE_ERR_INV_HCI_CMD_PARMS, demo_state)"
proof -
  have h1: "g_ble_ll_conn_create_sm demo_state = None"
    by (simp add: demo_state_def)
  have h2: "\<not> ble_ll_scan_enabled demo_ext (scan_sm demo_state)"
    by (simp add: demo_state_def demo_ext_def)
  have h3: "create_check_fails ble_consts cmd_create_bad"
    by (simp add: create_check_fails_def demo_cmd_defs ble_consts_def)
  have h4: "2 * uint (le16toh cmd_create_bad 15) * 1250 * (1 + uint (le16toh cmd_create_bad 17))
              < 2 ^ 32"
    by (simp add: demo_cmd_defs)
  show ?thesis
    using h3 create_invalid_no_mutation_no_wrap [OF h1 h2 h3 h4] by simp
qed

text \<open>
  C4. A command that fails a parameter check is to return "invalid parameters" and to
  leave the controller as it was. The command \<open>cmd_create_wrap\<close>, given to \<open>demo_state\<close>
  (nothing pending, scanner off, free records 3 and 4), fails the cross-check of the
  supervision timeout: 10 * 10000 microseconds do not exceed 2 * 3436 * 1250 * 500. The
  command returns success, not "invalid parameters": record 3 has left the free list, is
  on the active list and is the pending creation.
\<close>

theorem create_failed_check_accepted:
  "create_check_fails ble_consts cmd_create_wrap \<and>
   g_ble_ll_conn_create_sm demo_state = None \<and>
   \<not> ble_ll_scan_enabled demo_ext (scan_sm demo_state) \<and>
   g_ble_ll_conn_free_list demo_state = [3, 4] \<and>
   g_ble_ll_conn_active_list demo_state = [0, 1, 2] \<and>
   BLE_ERR_SUCCESS \<noteq> BLE_ERR_INV_HCI_CMD_PARMS \<and>
   (\<exists>s'. ble_ll_conn_create ble_consts demo_ext cmd_create_wrap demo_state
            = Some (BLE_ERR_SUCCESS, s') \<and>
         g_ble_ll_conn_free_list s' = [4] \<and>
         g_ble_ll_conn_active_list s' = [3, 0, 1, 2] \<and>
         g_ble_ll_conn_create_sm s' = Some 3)"
proof -
  have a: "create_check_fails ble_consts cmd_create_wrap"
    by (simp add: create_check_fails_def demo_cmd_defs ble_consts_def)
  have b: "g_ble_ll_conn_create_sm demo_state = None"
    "\<not> ble_ll_scan_enabled demo_ext (scan_sm demo_state)"
    "g_ble_ll_conn_free_list demo_state = [3, 4]"
    "g_ble_ll_conn_active_list demo_state = [0, 1, 2]"
    by (simp_all add: demo_state_def demo_ext_def)
  have c: "BLE_ERR_SUCCESS \<noteq> BLE_ERR_INV_HCI_CMD_PARMS"
    by (simp add: ble_err_defs)
  have d: "\<exists>s'. ble_ll_conn_create ble_consts demo_ext cmd_create_wrap demo_state
            = Some (BLE_ERR_SUCCESS, s') \<and>
         g_ble_ll_conn_free_list s' = [4] \<and>
         g_ble_ll_conn_active_list s' = [3, 0, 1, 2] \<and>
         g_ble_ll_conn_create_sm s' = Some 3"
    by (simp add: ble_ll_conn_create_def create_parse_wrap demo_state_def demo_ext_def
        ble_ll_conn_sm_get_def ble_ll_conn_sm_start_def ble_ll_conn_req_pdu_make_def
        demo_master_init_def demo_conn_def ble_layout_defs BLE_ERR_SUCCESS_def Let_def)
  from a b c d show ?thesis by blast
qed

subsection \<open>Roll-back and commit\<close>

lemma conn_req_pdu_make_returns:
  assumes "own_addr_type connsm \<in> {BLE_HCI_ADV_OWN_ADDR_PUBLIC, BLE_HCI_ADV_OWN_ADDR_RANDOM}"
  shows "\<exists>m. ble_ll_conn_req_pdu_make connsm dev_addr random_addr (Some m0) = Some m"
proof (cases "own_addr_type connsm = BLE_HCI_ADV_OWN_ADDR_PUBLIC")
  case True
  then show ?thesis by (simp add: ble_ll_conn_req_pdu_make_def Let_def)
next
  case False
  with assms have "own_addr_type connsm = BLE_HCI_ADV_OWN_ADDR_RANDOM" by simp
  with False show ?thesis by (simp add: ble_ll_conn_req_pdu_make_def Let_def)
qed

text \<open>
  C5. The command has passed validation, a free record \<open>connsm\<close> has been taken and
  initialised and the connect request encoded. If the initiator start returns a failure
  code, that code is returned, the active list is what it was before the command, the
  record is at the tail of the free list and no creation is pending. If the start returns
  0, success is returned and the pending-creation reference is the new record, which is on
  the active list.
\<close>

theorem create_rollback_or_commit:
  assumes "g_ble_ll_conn_create_sm s = None" and "\<not> ble_ll_scan_enabled E (scan_sm s)"
    and "ble_ll_conn_create_parse K cmdbuf = Inr hcc"
    and "g_ble_ll_conn_free_list s = connsm # rest"
    and "scan_pdu s = Some m0"
    and "own_addr_type (ble_ll_conn_master_init E hcc (connsm_at s connsm))
           \<in> {BLE_HCI_ADV_OWN_ADDR_PUBLIC, BLE_HCI_ADV_OWN_ADDR_RANDOM}"
    and "ble_ll_scan_initiator_start E hcc (scan_sm s) = (rc, sc)"
  shows "\<exists>s'. ble_ll_conn_create K E cmdbuf s = Some (rc, s') \<and>
           (if rc \<noteq> 0
            then g_ble_ll_conn_active_list s' = g_ble_ll_conn_active_list s \<and>
                 g_ble_ll_conn_free_list s' = rest @ [connsm] \<and>
                 g_ble_ll_conn_create_sm s' = None
            else rc = BLE_ERR_SUCCESS \<and>
                 g_ble_ll_conn_create_sm s' = Some connsm \<and>
                 g_ble_ll_conn_active_list s' = connsm # g_ble_ll_conn_active_list s \<and>
                 g_ble_ll_conn_free_list s' = rest)"
proof -
  let ?c = "ble_ll_conn_master_init E hcc (connsm_at s connsm)"
  from conn_req_pdu_make_returns [OF assms(6)] obtain m where
    m: "ble_ll_conn_req_pdu_make ?c (g_dev_addr s) (g_random_addr s) (Some m0) = Some m"
    by blast
  show ?thesis
    using assms(1-5,7) m
    by (simp add: ble_ll_conn_create_def ble_ll_conn_sm_get_def ble_ll_conn_sm_start_def
        SLIST_REMOVE_def BLE_ERR_SUCCESS_def Let_def)
qed

theorem create_rollback_or_commit_witness:
  "(\<exists>s'. ble_ll_conn_create ble_consts demo_ext_fail cmd_create_ok demo_state = Some (0x0c, s') \<and>
         g_ble_ll_conn_active_list s' = [0, 1, 2] \<and> g_ble_ll_conn_free_list s' = [4, 3] \<and>
         g_ble_ll_conn_create_sm s' = None)
   \<and> (\<exists>s'. ble_ll_conn_create ble_consts demo_ext cmd_create_ok demo_state = Some (0, s') \<and>
         g_ble_ll_conn_create_sm s' = Some 3 \<and>
         g_ble_ll_conn_active_list s' = [3, 0, 1, 2] \<and> g_ble_ll_conn_free_list s' = [4])"
proof -
  let ?hcc = "\<lparr>hcc_scan_itvl = 16, hcc_scan_window = 16, hcc_filter_policy = 0,
          hcc_peer_addr_type = Some 0, hcc_peer_addr = Some [1, 2, 3, 4, 5, 6],
          hcc_own_addr_type = 0, hcc_conn_itvl_min = 24, hcc_conn_itvl_max = 40,
          hcc_conn_latency = 0, hcc_supervision_timeout = 11,
          hcc_min_ce_len = 0, hcc_max_ce_len = 0\<rparr>"
  have h1: "g_ble_ll_conn_create_sm demo_state = None"
    by (simp add: demo_state_def)
  have h2: "\<not> ble_ll_scan_enabled demo_ext (scan_sm demo_state)"
    "\<not> ble_ll_scan_enabled demo_ext_fail (scan_sm demo_state)"
    by (simp_all add: demo_state_def demo_ext_def demo_ext_fail_def)
  have h4: "g_ble_ll_conn_free_list demo_state = 3 # [4]"
    by (simp add: demo_state_def)
  have h5: "scan_pdu demo_state = Some \<lparr>om_len = 0, omp_len = 0, om_data = (\<lambda>i. 0xee)\<rparr>"
    by (simp add: demo_state_def)
  have h6: "own_addr_type (ble_ll_conn_master_init demo_ext ?hcc (connsm_at demo_state 3))
           \<in> {BLE_HCI_ADV_OWN_ADDR_PUBLIC, BLE_HCI_ADV_OWN_ADDR_RANDOM}"
    "own_addr_type (ble_ll_conn_master_init demo_ext_fail ?hcc (connsm_at demo_state 3))
           \<in> {BLE_HCI_ADV_OWN_ADDR_PUBLIC, BLE_HCI_ADV_OWN_ADDR_RANDOM}"
    by (simp_all add: demo_ext_def demo_ext_fail_def demo_master_init_def
        BLE_HCI_ADV_OWN_ADDR_PUBLIC_def)
  have h7: "ble_ll_scan_initiator_start demo_ext ?hcc (scan_sm demo_state) = (0, True)"
    "ble_ll_scan_initiator_start demo_ext_fail ?hcc (scan_sm demo_state) = (0x0c, False)"
    by (simp_all add: demo_ext_def demo_ext_fail_def demo_state_def)
  have act: "g_ble_ll_conn_active_list demo_state = [0, 1, 2]"
    by (simp add: demo_state_def)
  show ?thesis
    using create_rollback_or_commit [OF h1 h2(2) create_parse_ok h4 h5 h6(2) h7(2)]
      create_rollback_or_commit [OF h1 h2(1) create_parse_ok h4 h5 h6(1) h7(1)]
    by (simp add: act) blast
qed


section \<open>The connect request\<close>

lemma htole32_bytes:
  "htole32 b off x off = ucast x" "htole32 b off x (off + 1) = ucast (drop_bit 8 x)"
  "htole32 b off x (off + 2) = ucast (drop_bit 16 x)"
  "htole32 b off x (off + 3) = ucast (drop_bit 24 x)"
  by (simp_all add: htole32_def)

lemma byte35_fields:
  fixes hop sca :: u8
  assumes "hop < 32" and "take_bit 5 sca = 0"
  shows "take_bit 5 (hop OR sca) = hop" and "drop_bit 5 (hop OR sca) = drop_bit 5 sca"
proof -
  from assms(1) have "hop < 2 ^ 5" by simp
  then have h: "take_bit 5 hop = hop"
    by (simp only: take_bit_eq_mask less_mask_eq)
  then have d: "drop_bit 5 hop = 0"
    by (simp only: take_bit_eq_self_iff_drop_bit_eq_0)
  show "take_bit 5 (hop OR sca) = hop"
    by (simp add: h assms(2))
  show "drop_bit 5 (hop OR sca) = drop_bit 5 sca"
    by (simp add: d)
qed

text \<open>
  C2. For a record whose own address type is public or random the encoder returns the
  mbuf with the link parameters at their offsets: access address at bytes 14 to 17, CRC
  initialisation value at 18 to 20, transmit window size at 21, window offset at 22-23,
  interval at 24-25, latency at 26-27, supervision timeout at 28-29, channel map at 30 to
  34; bytes 8 to 13 are as they were in the mbuf; byte 35 is the bitwise OR of the hop
  increment and the sleep-clock accuracy. Where the hop increment lies in the five low bits
  and the accuracy in the three high bits of their fields, the five low bits of byte 35 are
  the hop increment and its three high bits those of the accuracy.
\<close>

theorem conn_req_pdu_layout:
  assumes "own_addr_type connsm \<in> {BLE_HCI_ADV_OWN_ADDR_PUBLIC, BLE_HCI_ADV_OWN_ADDR_RANDOM}"
  shows "\<exists>m. ble_ll_conn_req_pdu_make connsm dev_addr random_addr (Some m0) = Some m \<and>
    om_data m 14 = ucast (access_addr connsm) \<and>
    om_data m 15 = ucast (drop_bit 8 (access_addr connsm)) \<and>
    om_data m 16 = ucast (drop_bit 16 (access_addr connsm)) \<and>
    om_data m 17 = ucast (drop_bit 24 (access_addr connsm)) \<and>
    om_data m 18 = ucast (crcinit connsm) \<and>
    om_data m 19 = ucast (drop_bit 8 (crcinit connsm)) \<and>
    om_data m 20 = ucast (drop_bit 16 (crcinit connsm)) \<and>
    om_data m 21 = tx_win_size connsm \<and>
    le16toh (om_data m) 22 = tx_win_off connsm \<and>
    le16toh (om_data m) 24 = conn_itvl connsm \<and>
    le16toh (om_data m) 26 = slave_latency connsm \<and>
    le16toh (om_data m) 28 = supervision_tmo connsm \<and>
    map (om_data m) [30, 31, 32, 33, 34] = map (chanmap connsm) [0, 1, 2, 3, 4] \<and>
    map (om_data m) [8, 9, 10, 11, 12, 13] = map (om_data m0) [8, 9, 10, 11, 12, 13] \<and>
    om_data m 35 = hop_inc connsm OR master_sca connsm \<and>
    (hop_inc connsm < 32 \<and> take_bit 5 (master_sca connsm) = 0 \<longrightarrow>
       take_bit 5 (om_data m 35) = hop_inc connsm \<and>
       drop_bit 5 (om_data m 35) = drop_bit 5 (master_sca connsm))"
proof -
  have fields: "b = hop_inc connsm OR master_sca connsm \<Longrightarrow>
      hop_inc connsm < 32 \<and> take_bit 5 (master_sca connsm) = 0 \<longrightarrow>
       take_bit 5 b = hop_inc connsm \<and> drop_bit 5 b = drop_bit 5 (master_sca connsm)" for b
    using byte35_fields [of "hop_inc connsm" "master_sca connsm"] by blast
  have main: "\<exists>m. ble_ll_conn_req_pdu_make connsm dev_addr random_addr (Some m0) = Some m \<and>
    om_data m 14 = ucast (access_addr connsm) \<and>
    om_data m 15 = ucast (drop_bit 8 (access_addr connsm)) \<and>
    om_data m 16 = ucast (drop_bit 16 (access_addr connsm)) \<and>
    om_data m 17 = ucast (drop_bit 24 (access_addr connsm)) \<and>
    om_data m 18 = ucast (crcinit connsm) \<and>
    om_data m 19 = ucast (drop_bit 8 (crcinit connsm)) \<and>
    om_data m 20 = ucast (drop_bit 16 (crcinit connsm)) \<and>
    om_data m 21 = tx_win_size connsm \<and>
    le16toh (om_data m) 22 = tx_win_off connsm \<and>
    le16toh (om_data m) 24 = conn_itvl connsm \<and>
    le16toh (om_data m) 26 = slave_latency connsm \<and>
    le16toh (om_data m) 28 = supervision_tmo connsm \<and>
    map (om_data m) [30, 31, 32, 33, 34] = map (chanmap connsm) [0, 1, 2, 3, 4] \<and>
    map (om_data m) [8, 9, 10, 11, 12, 13] = map (om_data m0) [8, 9, 10, 11, 12, 13] \<and>
    om_data m 35 = hop_inc connsm OR master_sca connsm"
  proof (cases "own_addr_type connsm = BLE_HCI_ADV_OWN_ADDR_PUBLIC")
    case True
    then show ?thesis
      by (simp add: ble_ll_conn_req_pdu_make_def Let_def ble_layout_defs memcpy_def
          htole32_def le16toh_def htole16_def)
        (intro conjI; rule bit_word_eqI; auto simp: bit_simps)
  next
    case False
    with assms have "own_addr_type connsm = BLE_HCI_ADV_OWN_ADDR_RANDOM" by simp
    with False show ?thesis
      by (simp add: ble_ll_conn_req_pdu_make_def Let_def ble_layout_defs memcpy_def
          htole32_def le16toh_def htole16_def)
        (intro conjI; rule bit_word_eqI; auto simp: bit_simps)
  qed
  then obtain m where m: "ble_ll_conn_req_pdu_make connsm dev_addr random_addr (Some m0) = Some m"
    and rest: "om_data m 14 = ucast (access_addr connsm) \<and>
    om_data m 15 = ucast (drop_bit 8 (access_addr connsm)) \<and>
    om_data m 16 = ucast (drop_bit 16 (access_addr connsm)) \<and>
    om_data m 17 = ucast (drop_bit 24 (access_addr connsm)) \<and>
    om_data m 18 = ucast (crcinit connsm) \<and>
    om_data m 19 = ucast (drop_bit 8 (crcinit connsm)) \<and>
    om_data m 20 = ucast (drop_bit 16 (crcinit connsm)) \<and>
    om_data m 21 = tx_win_size connsm \<and>
    le16toh (om_data m) 22 = tx_win_off connsm \<and>
    le16toh (om_data m) 24 = conn_itvl connsm \<and>
    le16toh (om_data m) 26 = slave_latency connsm \<and>
    le16toh (om_data m) 28 = supervision_tmo connsm \<and>
    map (om_data m) [30, 31, 32, 33, 34] = map (chanmap connsm) [0, 1, 2, 3, 4] \<and>
    map (om_data m) [8, 9, 10, 11, 12, 13] = map (om_data m0) [8, 9, 10, 11, 12, 13] \<and>
    om_data m 35 = hop_inc connsm OR master_sca connsm"
    by blast
  from rest have "om_data m 35 = hop_inc connsm OR master_sca connsm" by blast
  from fields [OF this] m rest show ?thesis by blast
qed

text \<open>
  The record \<open>demo_conn\<close>: public own address, hop increment 9, accuracy class 5 stored as
  0xa0. Byte 35 of its connect request is 0xa9.
\<close>

theorem conn_req_pdu_layout_witness:
  "\<exists>m. ble_ll_conn_req_pdu_make demo_conn (g_dev_addr demo_state) (g_random_addr demo_state)
          (Some \<lparr>om_len = 0, omp_len = 0, om_data = (\<lambda>i. 0xee)\<rparr>) = Some m \<and>
       map (om_data m) [14, 15, 16, 17] = [0xd6, 0xbe, 0x89, 0x8e] \<and>
       map (om_data m) [18, 19, 20] = [0x56, 0x34, 0x12] \<and>
       om_data m 21 = 2 \<and> le16toh (om_data m) 24 = 40 \<and> le16toh (om_data m) 28 = 100 \<and>
       map (om_data m) [30, 31, 32, 33, 34] = [0xff, 0xff, 0xff, 0xff, 0x1f] \<and>
       map (om_data m) [8, 9, 10, 11, 12, 13] = [0xee, 0xee, 0xee, 0xee, 0xee, 0xee] \<and>
       om_data m 35 = 0xa9 \<and> take_bit 5 (om_data m 35) = 9 \<and> drop_bit 5 (om_data m 35) = 5"
proof -
  have h: "own_addr_type demo_conn \<in> {BLE_HCI_ADV_OWN_ADDR_PUBLIC, BLE_HCI_ADV_OWN_ADDR_RANDOM}"
    by (simp add: demo_conn_def BLE_HCI_ADV_OWN_ADDR_PUBLIC_def)
  show ?thesis
    using conn_req_pdu_layout [OF h, of "g_dev_addr demo_state" "g_random_addr demo_state"
      "\<lparr>om_len = 0, omp_len = 0, om_data = (\<lambda>i. 0xee)\<rparr>"]
    apply (elim exE conjE)
    apply (intro exI conjI)
               apply assumption
              apply (simp_all add: demo_conn_def buf_of_def)
    done
qed

section \<open>The disconnect command\<close>

lemma disconnect_reason_ok_nonzero: "disconnect_reason_ok r \<Longrightarrow> r \<noteq> 0"
  by (auto simp: disconnect_reason_ok_def ble_err_defs)

text \<open>
  C6. A handle above the maximum, or a reason that is not one of the seven that the
  command accepts, reason 0 for one, makes the command return "invalid parameters" with
  the state as it was given, whatever records are active in it.
\<close>

theorem disconnect_invalid:
  assumes "BLE_LL_CONN_MAX_CONN_HANDLE K < uint (le16toh cmdbuf 0) \<or>
           \<not> disconnect_reason_ok (cmdbuf 2) \<or> cmdbuf 2 = 0"
  shows "ble_ll_conn_hci_disconnect_cmd K E cmdbuf s = Some (BLE_ERR_INV_HCI_CMD_PARMS, s)"
proof -
  from assms have "BLE_LL_CONN_MAX_CONN_HANDLE K < uint (le16toh cmdbuf 0) \<or>
           \<not> disconnect_reason_ok (cmdbuf 2)"
    using disconnect_reason_ok_nonzero [of "cmdbuf 2"] by blast
  then show ?thesis
    by (auto simp: ble_ll_conn_hci_disconnect_cmd_def Let_def)
qed

lemma demo_find_handle2:
  "ble_ll_conn_find_active_conn demo_state 2 = Some 1"
  "ble_ll_conn_find_active_conn demo_state_disconnecting 2 = Some 1"
  by (simp_all add: ble_ll_conn_find_active_conn_def demo_state_disconnecting_def
      demo_state_def demo_conn_def)

lemma demo_disconnect_cmds:
  "le16toh cmd_disconnect_ok 0 = 2" "cmd_disconnect_ok 2 = 0x13"
  "le16toh cmd_disconnect_reason0 0 = 2" "cmd_disconnect_reason0 2 = 0"
  "le16toh cmd_disconnect_handle_f00 0 = 0x0f00" "cmd_disconnect_handle_f00 2 = 0x13"
  by (simp_all add: cmd_disconnect_ok_def cmd_disconnect_reason0_def
      cmd_disconnect_handle_f00_def buf_of_def le16toh_def)

theorem disconnect_invalid_witness:
  "ble_ll_conn_find_active_conn demo_state (le16toh cmd_disconnect_reason0 0) = Some 1
   \<and> cmd_disconnect_reason0 2 = 0
   \<and> ble_ll_conn_hci_disconnect_cmd ble_consts demo_ext cmd_disconnect_reason0 demo_state
       = Some (BLE_ERR_INV_HCI_CMD_PARMS, demo_state)
   \<and> BLE_LL_CONN_MAX_CONN_HANDLE ble_consts < uint (le16toh cmd_disconnect_handle_f00 0)
   \<and> ble_ll_conn_hci_disconnect_cmd ble_consts demo_ext cmd_disconnect_handle_f00 demo_state
       = Some (BLE_ERR_INV_HCI_CMD_PARMS, demo_state)"
proof -
  have h1: "BLE_LL_CONN_MAX_CONN_HANDLE ble_consts < uint (le16toh cmd_disconnect_reason0 0) \<or>
           \<not> disconnect_reason_ok (cmd_disconnect_reason0 2) \<or> cmd_disconnect_reason0 2 = 0"
    by (simp add: demo_disconnect_cmds)
  have h2: "BLE_LL_CONN_MAX_CONN_HANDLE ble_consts < uint (le16toh cmd_disconnect_handle_f00 0)"
    by (simp add: demo_disconnect_cmds ble_consts_def)
  then have h3:
    "BLE_LL_CONN_MAX_CONN_HANDLE ble_consts < uint (le16toh cmd_disconnect_handle_f00 0) \<or>
     \<not> disconnect_reason_ok (cmd_disconnect_handle_f00 2) \<or> cmd_disconnect_handle_f00 2 = 0"
    by blast
  show ?thesis
    using disconnect_invalid [OF h1, of demo_ext demo_state]
      disconnect_invalid [OF h3, of demo_ext demo_state] h2
    by (simp add: demo_find_handle2 demo_disconnect_cmds)
qed

lemma repeat_cmd_fixed:
  assumes "f s = Some (rc, s)"
  shows "repeat_cmd f n s = Some (replicate n rc, s)"
  by (induction n) (simp_all add: assms)

text \<open>
  C7. Handle and reason are valid and the handle is that of the active record \<open>connsm\<close>;
  the termination procedure is not pending on a record without a disconnect reason (the
  invariant asserted at line 454). If the record has a disconnect reason, each of any
  number of calls returns "command disallowed" and the state stays as it is. If it has
  none, the call returns success and the record is the one that the termination start
  leaves of the record with the supplied reason, which is not 0. The command never changes
  a record that has a disconnect reason.
\<close>

theorem disconnect_once:
  assumes "uint (le16toh cmdbuf 0) \<le> BLE_LL_CONN_MAX_CONN_HANDLE K"
    and "disconnect_reason_ok (cmdbuf 2)"
    and "ble_ll_conn_find_active_conn s (le16toh cmdbuf 0) = Some connsm"
    and "disconnect_reason (connsm_at s connsm) = 0 \<Longrightarrow>
         \<not> IS_PENDING_CTRL_PROC_M (connsm_at s connsm) (BLE_LL_CTRL_PROC_TERMINATE K)"
  shows "(if disconnect_reason (connsm_at s connsm) \<noteq> 0
          then repeat_cmd (ble_ll_conn_hci_disconnect_cmd K E cmdbuf) n s
                 = Some (replicate n BLE_ERR_CMD_DISALLOWED, s)
          else ble_ll_conn_hci_disconnect_cmd K E cmdbuf s
                 = Some (BLE_ERR_SUCCESS,
                     s\<lparr>connsm_at := (connsm_at s)
                        (connsm := ble_ll_ctrl_terminate_start E
                           ((connsm_at s connsm)\<lparr>disconnect_reason := cmdbuf 2\<rparr>))\<rparr>)
               \<and> cmdbuf 2 \<noteq> 0)
         \<and> (\<forall>rc s' c. ble_ll_conn_hci_disconnect_cmd K E cmdbuf s = Some (rc, s') \<and>
               disconnect_reason (connsm_at s c) \<noteq> 0
               \<longrightarrow> connsm_at s' c = connsm_at s c)"
proof (cases "disconnect_reason (connsm_at s connsm) = 0")
  case True
  with assms show ?thesis
    by (auto simp: ble_ll_conn_hci_disconnect_cmd_def Let_def
        dest: disconnect_reason_ok_nonzero)
next
  case False
  with assms(1-3) have
    "ble_ll_conn_hci_disconnect_cmd K E cmdbuf s = Some (BLE_ERR_CMD_DISALLOWED, s)"
    by (simp add: ble_ll_conn_hci_disconnect_cmd_def Let_def)
  with False show ?thesis
    by (simp add: repeat_cmd_fixed)
qed

theorem disconnect_once_witness:
  "ble_ll_conn_hci_disconnect_cmd ble_consts demo_ext cmd_disconnect_ok demo_state
     = Some (BLE_ERR_SUCCESS,
         demo_state\<lparr>connsm_at := (connsm_at demo_state)
            (1 := (connsm_at demo_state 1)\<lparr>disconnect_reason := 0x13,
                    pending_ctrl_procs := 32\<rparr>)\<rparr>)
   \<and> repeat_cmd (ble_ll_conn_hci_disconnect_cmd ble_consts demo_ext cmd_disconnect_ok) 3
        demo_state_disconnecting
     = Some ([BLE_ERR_CMD_DISALLOWED, BLE_ERR_CMD_DISALLOWED, BLE_ERR_CMD_DISALLOWED],
             demo_state_disconnecting)"
proof -
  have h1: "uint (le16toh cmd_disconnect_ok 0) \<le> BLE_LL_CONN_MAX_CONN_HANDLE ble_consts"
    by (simp add: demo_disconnect_cmds ble_consts_def)
  have h2: "disconnect_reason_ok (cmd_disconnect_ok 2)"
    by (simp add: demo_disconnect_cmds disconnect_reason_ok_def ble_err_defs)
  have h3: "ble_ll_conn_find_active_conn demo_state (le16toh cmd_disconnect_ok 0) = Some 1"
    "ble_ll_conn_find_active_conn demo_state_disconnecting (le16toh cmd_disconnect_ok 0) = Some 1"
    by (simp_all add: demo_disconnect_cmds demo_find_handle2)
  have h4: "\<not> IS_PENDING_CTRL_PROC_M (connsm_at demo_state 1) (BLE_LL_CTRL_PROC_TERMINATE ble_consts)"
    by (simp add: IS_PENDING_CTRL_PROC_M_def demo_state_def demo_conn_def)
  have h5: "disconnect_reason (connsm_at demo_state_disconnecting 1) \<noteq> 0"
    "disconnect_reason (connsm_at demo_state 1) = 0"
    by (simp_all add: demo_state_disconnecting_def demo_state_def demo_conn_def)
  have h6: "ble_ll_ctrl_terminate_start demo_ext
              ((connsm_at demo_state 1)\<lparr>disconnect_reason := 0x13\<rparr>)
            = (connsm_at demo_state 1)\<lparr>disconnect_reason := 0x13, pending_ctrl_procs := 32\<rparr>"
    by (simp add: demo_ext_def demo_state_def demo_conn_def)
  have a: "ble_ll_conn_hci_disconnect_cmd ble_consts demo_ext cmd_disconnect_ok demo_state
     = Some (BLE_ERR_SUCCESS,
         demo_state\<lparr>connsm_at := (connsm_at demo_state)
            (1 := ble_ll_ctrl_terminate_start demo_ext
                    ((connsm_at demo_state 1)\<lparr>disconnect_reason := cmd_disconnect_ok 2\<rparr>))\<rparr>)"
    using disconnect_once [OF h1 h2 h3(1) h4, of demo_ext 3, THEN conjunct1] h5(2) by simp
  have b: "repeat_cmd (ble_ll_conn_hci_disconnect_cmd ble_consts demo_ext cmd_disconnect_ok) 3
        demo_state_disconnecting
     = Some (replicate 3 BLE_ERR_CMD_DISALLOWED, demo_state_disconnecting)"
    using disconnect_once [OF h1 h2 h3(2), of demo_ext 3, THEN conjunct1] h5(1) by simp
  have c: "replicate 3 BLE_ERR_CMD_DISALLOWED
           = [BLE_ERR_CMD_DISALLOWED, BLE_ERR_CMD_DISALLOWED, BLE_ERR_CMD_DISALLOWED]"
    by (simp add: numeral_3_eq_3)
  show ?thesis
    unfolding a b c by (simp only: demo_disconnect_cmds h6)
qed


section \<open>The batched completed-packets report\<close>

subsection \<open>Reading the buffer back\<close>

lemma ncp_staged_snoc:
  assumes "ncp_staged b pend" and "length pend < 60"
  shows "ncp_staged (htole16 (htole16 b (3 + 2 * length pend) h) (123 + 2 * length pend) c)
           (pend @ [(h, c)])"
  unfolding ncp_staged_def
proof (intro allI impI)
  fix i assume "i < length (pend @ [(h, c)])"
  then consider "i < length pend" | "i = length pend" by fastforce
  then show "le16toh (htole16 (htole16 b (3 + 2 * length pend) h) (123 + 2 * length pend) c) (3 + 2 * i)
               = fst ((pend @ [(h, c)]) ! i) \<and>
             le16toh (htole16 (htole16 b (3 + 2 * length pend) h) (123 + 2 * length pend) c) (123 + 2 * i)
               = snd ((pend @ [(h, c)]) ! i)"
  proof cases
    case 1
    with assms show ?thesis
      by (simp add: le16toh_htole16_other ncp_staged_def nth_append)
  next
    case 2
    with assms show ?thesis
      by (simp add: le16toh_htole16_other le16toh_htole16_same nth_append)
  qed
qed

lemma le16toh_header: "3 \<le> off \<Longrightarrow> le16toh (ncp_header b h) off = le16toh b off"
  by (simp add: le16toh_def ncp_header_def)

lemma ncp_header_count: "ncp_header b h 2 = h"
  by (simp add: ncp_header_def)

lemma ncp_decode_full:
  assumes "ncp_staged b pend" and "length pend = 60"
  shows "ncp_decode (ncp_header b 60) = pend"
proof (rule nth_equalityI)
  show "length (ncp_decode (ncp_header b 60)) = length pend"
    using assms(2) by (simp add: ncp_decode_def ncp_header_count)
next
  fix i assume "i < length (ncp_decode (ncp_header b 60))"
  then have i: "i < 60" by (simp add: ncp_decode_def ncp_header_count)
  with assms show "ncp_decode (ncp_header b 60) ! i = pend ! i"
    by (simp add: ncp_decode_def ncp_header_count le16toh_header ncp_staged_def
        prod_eq_iff)
qed

lemma le16toh_memmove_low:
  "off + 1 < dst \<Longrightarrow> le16toh (memmove b dst src n) off = le16toh b off"
  by (simp add: le16toh_def memmove_def)

lemma le16toh_memmove_in:
  "dst \<le> off \<Longrightarrow> off + 1 < dst + n \<Longrightarrow>
   le16toh (memmove b dst src n) off = le16toh b (src + (off - dst))"
  by (simp add: le16toh_def memmove_def Suc_diff_le)

lemma ncp_decode_partial:
  assumes "ncp_staged b pend" and "length pend < 60" and "h = of_nat (length pend)"
  shows "ncp_decode (memmove (ncp_header b h) (3 + 2 * length pend) (3 + 60 * 2) (unat h * 2))
         = pend"
proof -
  define n where "n = length pend"
  define ev where "ev = memmove (ncp_header b h) (3 + 2 * n) (3 + 60 * 2) (unat h * 2)"
  have un: "unat h = n"
    using assms(2,3) by (simp add: unat_of_nat n_def)
  have cnt: "unat (ev 2) = n"
    using un by (simp add: ev_def memmove_def ncp_header_def)
  have len: "length (ncp_decode ev) = n"
    by (simp add: ncp_decode_def cnt)
  have "ncp_decode ev = pend"
  proof (rule nth_equalityI)
    show "length (ncp_decode ev) = length pend"
      by (simp add: len n_def)
  next
    fix i assume "i < length (ncp_decode ev)"
    then have i: "i < n" by (simp add: len)
    have h: "le16toh ev (3 + 2 * i) = fst (pend ! i)"
      using i assms(1) unfolding ev_def
      by (simp add: le16toh_memmove_low le16toh_header ncp_staged_def n_def)
    have c: "le16toh ev (3 + 2 * n + 2 * i) = snd (pend ! i)"
      using i assms(1) unfolding ev_def
      by (simp add: un le16toh_memmove_in le16toh_header ncp_staged_def n_def)
    from i h c show "ncp_decode ev ! i = pend ! i"
      by (simp add: ncp_decode_def cnt prod_eq_iff)
  qed
  then show ?thesis by (simp add: ev_def n_def)
qed

subsection \<open>One iteration\<close>

lemma ncp_reset_Nil: "ncp_reset [] f = f"
  by (simp add: ncp_reset_def)

lemma ncp_reset_Cons:
  "ncp_reset w (f(c := (f c)\<lparr>completed_pkts := 0\<rparr>)) = ncp_reset (c # w) f"
  by (auto simp: ncp_reset_def fun_eq_iff)

lemma handles_full_iff:
  assumes "n < 60"
  shows "(of_nat n + 1 :: u8) = 60 \<longleftrightarrow> n + 1 = 60"
proof
  assume a: "(of_nat n + 1 :: u8) = 60"
  have "(of_nat n + 1 :: u8) = of_nat (Suc n)" by simp
  with a have "unat (of_nat (Suc n) :: u8) = unat (60 :: u8)" by (simp only:)
  moreover from assms have "unat (of_nat (Suc n) :: u8) = Suc n"
    by (simp only: unat_of_nat) simp
  ultimately show "n + 1 = 60" by simp
next
  assume "n + 1 = 60"
  then have "n = 59" by simp
  then show "(of_nat n + 1 :: u8) = 60" by simp
qed

lemma ncp_get_buf_cases:
  assumes "ncp_inv l pend"
  obtains (break) "pend = []" and "g_hci_cmd_pool s = []" and "ncp_get_buf (s, l) = None"
  | (fresh) b rest l1 where "pend = []" and "g_hci_cmd_pool s = b # rest"
      and "ncp_get_buf (s, l) = Some (b, s\<lparr>g_hci_cmd_pool := rest\<rparr>, l1)"
      and "ncp_held b l1 []" and "event_sent l1 = event_sent l"
  | (held) b where "pend \<noteq> []" and "ncp_get_buf (s, l) = Some (b, s, l)"
      and "ncp_held b l pend"
proof (cases "evbuf l")
  case None
  with assms have p: "pend = []" by (simp add: ncp_inv_def)
  show ?thesis
  proof (cases "g_hci_cmd_pool s")
    case Nil
    with None p show ?thesis
      by (intro break) (simp_all add: ncp_get_buf_def os_memblock_get_def)
  next
    case (Cons b rest)
    with None p show ?thesis
      by (intro fresh [of b rest "l\<lparr>evbuf := Some b, handles := 0, handle_ptr := 3,
                               comp_pkt_ptr := 3 + 2 * 60\<rparr>"])
        (simp_all add: ncp_get_buf_def os_memblock_get_def ncp_held_def ncp_staged_def)
  qed
next
  case (Some b)
  with assms show ?thesis
    by (intro held [of b]) (simp_all add: ncp_inv_def ncp_get_buf_def)
qed

lemma ncp_add_full:
  assumes "ncp_held b l pend" and "length pend + 1 = 60"
  shows "\<exists>ev l'. ncp_add c b (s, l) =
           (s\<lparr>connsm_at := (connsm_at s)(c := (connsm_at s c)\<lparr>completed_pkts := 0\<rparr>),
               hci_events := hci_events s @ [ev]\<rparr>, l') \<and>
           ncp_decode ev = pend @ [ncp_entry s c] \<and> ncp_inv l' [] \<and> event_sent l'"
proof -
  let ?b = "htole16 (htole16 b (3 + 2 * length pend) (conn_handle (connsm_at s c)))
              (123 + 2 * length pend) (completed_pkts (connsm_at s c))"
  from assms have lt: "length pend < 60" by simp
  from assms(1) have st: "ncp_staged ?b (pend @ [ncp_entry s c])"
    unfolding ncp_entry_def by (intro ncp_staged_snoc) (simp_all add: ncp_held_def)
  have dec: "ncp_decode (ncp_header ?b 60) = pend @ [ncp_entry s c]"
    using st assms(2) by (intro ncp_decode_full) simp_all
  from assms lt have h: "handles l + 1 = 60" "handle_ptr l = 3 + 2 * length pend"
      "comp_pkt_ptr l = 123 + 2 * length pend"
    by (simp_all add: ncp_held_def handles_full_iff)
  let ?l = "l\<lparr>evbuf := None, handle_ptr := handle_ptr l + 2,
              comp_pkt_ptr := comp_pkt_ptr l + 2, handles := 0, event_sent := True\<rparr>"
  have eq: "ncp_add c b (s, l) =
           (s\<lparr>connsm_at := (connsm_at s)(c := (connsm_at s c)\<lparr>completed_pkts := 0\<rparr>),
               hci_events := hci_events s @ [ncp_header ?b 60]\<rparr>, ?l)"
    using h by (simp add: ncp_add_def Let_def ble_ll_hci_event_send_def)
  show ?thesis
    by (rule exI [of _ "ncp_header ?b 60"], rule exI [of _ ?l])
      (simp only: eq dec, simp add: ncp_inv_def)
qed

lemma ncp_add_more:
  assumes "ncp_held b l pend" and "length pend + 1 \<noteq> 60"
  shows "\<exists>l'. ncp_add c b (s, l) =
           (s\<lparr>connsm_at := (connsm_at s)(c := (connsm_at s c)\<lparr>completed_pkts := 0\<rparr>)\<rparr>, l') \<and>
           ncp_inv l' (pend @ [ncp_entry s c]) \<and> event_sent l' = event_sent l"
proof -
  let ?b = "htole16 (htole16 b (3 + 2 * length pend) (conn_handle (connsm_at s c)))
              (123 + 2 * length pend) (completed_pkts (connsm_at s c))"
  from assms have lt: "length pend < 60" by (simp add: ncp_held_def)
  from assms(1) have st: "ncp_staged ?b (pend @ [ncp_entry s c])"
    unfolding ncp_entry_def by (intro ncp_staged_snoc) (simp_all add: ncp_held_def)
  from assms lt have h: "handles l + 1 \<noteq> 60" "handle_ptr l = 3 + 2 * length pend"
      "comp_pkt_ptr l = 123 + 2 * length pend" "handles l = of_nat (length pend)"
    by (simp_all add: ncp_held_def handles_full_iff)
  from assms(2) lt have lt': "Suc (length pend) < 60" by simp
  show ?thesis
    using st h lt'
    by (simp add: ncp_add_def Let_def ncp_inv_def ncp_held_def)
qed

lemma ncp_get_buf_cases2:
  assumes "ncp_inv l pend"
  obtains (break) "pend = []" and "g_hci_cmd_pool s = []" and "ncp_get_buf (s, l) = None"
  | (got) b l1 where "\<not> (pend = [] \<and> g_hci_cmd_pool s = [])"
      and "ncp_get_buf (s, l) =
             Some (b, s\<lparr>g_hci_cmd_pool := (if pend = [] then tl (g_hci_cmd_pool s)
                                                else g_hci_cmd_pool s)\<rparr>, l1)"
      and "ncp_held b l1 pend" and "event_sent l1 = event_sent l"
  using assms
proof (cases rule: ncp_get_buf_cases [where s = s])
  case break
  then show ?thesis by (rule that(1))
next
  case (fresh b rest l1)
  then show ?thesis by (intro that(2) [of b l1]) simp_all
next
  case (held b)
  then show ?thesis by (intro that(2) [of b l]) simp_all
qed

lemma ncp_same_elsewhere:
  assumes "c \<notin> set cs" and "connsm_at s' = (connsm_at s)(c := r)"
  shows "filter (ncp_eligible s') cs = filter (ncp_eligible s) cs"
    and "map (ncp_entry s') (filter (ncp_eligible s) cs) = map (ncp_entry s) (filter (ncp_eligible s) cs)"
proof -
  from assms have *: "\<And>x. x \<in> set cs \<Longrightarrow> connsm_at s' x = connsm_at s x" by auto
  show "filter (ncp_eligible s') cs = filter (ncp_eligible s) cs"
    by (rule filter_cong) (simp_all add: ncp_eligible_def *)
  show "map (ncp_entry s') (filter (ncp_eligible s) cs) = map (ncp_entry s) (filter (ncp_eligible s) cs)"
    by (rule map_cong) (simp_all add: ncp_entry_def *)
qed

lemma ncp_foreach_sim:
  assumes "distinct cs" and "ncp_inv l pend"
    and "ncp_batch pend (g_hci_cmd_pool s) (map (ncp_entry s) (filter (ncp_eligible s) cs))
           = (F, P, pool', n)"
  shows "\<exists>evs l'. ncp_foreach cs (s, l) =
           (s\<lparr>connsm_at := ncp_reset (take n (filter (ncp_eligible s) cs)) (connsm_at s),
               hci_events := hci_events s @ evs, g_hci_cmd_pool := pool'\<rparr>, l') \<and>
           map ncp_decode evs = F \<and> ncp_inv l' P \<and>
           event_sent l' = (event_sent l \<or> F \<noteq> [])"
  using assms
proof (induction cs arbitrary: s l pend F P pool' n)
  case Nil
  then show ?case by (auto simp: ncp_reset_Nil)
next
  case (Cons c cs)
  let ?es = "filter (ncp_eligible s) cs"
  from Cons.prems(1) have dist: "distinct cs" and notin: "c \<notin> set cs" by simp_all
  show ?case
  proof (cases "ncp_eligible s c")
    case False
    with Cons.prems(3) have
      "ncp_batch pend (g_hci_cmd_pool s) (map (ncp_entry s) ?es) = (F, P, pool', n)" by simp
    from Cons.IH [OF dist Cons.prems(2) this] False show ?thesis by simp
  next
    case True
    with Cons.prems(3) have bt:
      "ncp_batch pend (g_hci_cmd_pool s) (ncp_entry s c # map (ncp_entry s) ?es)
         = (F, P, pool', n)" by simp
    from Cons.prems(2) show ?thesis
    proof (cases rule: ncp_get_buf_cases2 [where s = s])
      case break
      with bt have "F = []" "P = []" "pool' = []" "n = 0" by simp_all
      with break True Cons.prems(2) show ?thesis
        by (auto simp: ncp_reset_Nil)
    next
      case (got b l1)
      let ?pool1 = "if pend = [] then tl (g_hci_cmd_pool s) else g_hci_cmd_pool s"
      let ?s1 = "s\<lparr>g_hci_cmd_pool := ?pool1\<rparr>"
      let ?r = "(connsm_at s c)\<lparr>completed_pkts := 0\<rparr>"
      have step: "ncp_foreach (c # cs) (s, l) = ncp_foreach cs (ncp_add c b (?s1, l1))"
        using True got(2) by simp
      show ?thesis
      proof (cases "length pend + 1 = 60")
        case full: True
        with bt got(1) obtain F' n' where
          bt': "ncp_batch [] ?pool1 (map (ncp_entry s) ?es) = (F', P, pool', n')"
          and F: "F = (pend @ [ncp_entry s c]) # F'" and n: "n = Suc n'"
          by (auto simp: Let_def split: prod.splits if_splits)
        from ncp_add_full [OF got(3) full, of c ?s1] obtain ev l2 where
          add: "ncp_add c b (?s1, l1) =
                  (?s1\<lparr>connsm_at := (connsm_at ?s1)(c := (connsm_at ?s1 c)\<lparr>completed_pkts := 0\<rparr>),
                       hci_events := hci_events ?s1 @ [ev]\<rparr>, l2)"
          and dec: "ncp_decode ev = pend @ [ncp_entry ?s1 c]"
          and inv2: "ncp_inv l2 []" and sent2: "event_sent l2"
          by blast
        let ?s2 = "?s1\<lparr>connsm_at := (connsm_at ?s1)(c := (connsm_at ?s1 c)\<lparr>completed_pkts := 0\<rparr>),
                       hci_events := hci_events ?s1 @ [ev]\<rparr>"
        have c2: "connsm_at ?s2 = (connsm_at s)(c := ?r)" by simp
        have f2: "filter (ncp_eligible ?s2) cs = ?es"
          and m2: "map (ncp_entry ?s2) ?es = map (ncp_entry s) ?es"
          using ncp_same_elsewhere [OF notin c2] by simp_all
        have "ncp_batch [] (g_hci_cmd_pool ?s2) (map (ncp_entry ?s2) (filter (ncp_eligible ?s2) cs))
                = (F', P, pool', n')"
          using bt' by (simp only: f2 m2) simp
        from Cons.IH [OF dist inv2 this] obtain evs l' where
          r: "ncp_foreach cs (?s2, l2) =
               (?s2\<lparr>connsm_at := ncp_reset (take n' (filter (ncp_eligible ?s2) cs)) (connsm_at ?s2),
                    hci_events := hci_events ?s2 @ evs, g_hci_cmd_pool := pool'\<rparr>, l')"
          and d: "map ncp_decode evs = F'" and i: "ncp_inv l' P"
          and e: "event_sent l' = (event_sent l2 \<or> F' \<noteq> [])"
          by blast
        have st: "?s2\<lparr>connsm_at := ncp_reset (take n' (filter (ncp_eligible ?s2) cs)) (connsm_at ?s2),
                    hci_events := hci_events ?s2 @ evs, g_hci_cmd_pool := pool'\<rparr>
                = s\<lparr>connsm_at := ncp_reset (take n (filter (ncp_eligible s) (c # cs))) (connsm_at s),
                    hci_events := hci_events s @ (ev # evs), g_hci_cmd_pool := pool'\<rparr>"
          using True by (simp only: f2 c2 n) (simp add: ncp_reset_Cons)
        have "ncp_foreach (c # cs) (s, l) =
                (s\<lparr>connsm_at := ncp_reset (take n (filter (ncp_eligible s) (c # cs))) (connsm_at s),
                    hci_events := hci_events s @ (ev # evs), g_hci_cmd_pool := pool'\<rparr>, l')"
          by (simp only: step add r st)
        moreover have "map ncp_decode (ev # evs) = F"
          using dec d F by (simp add: ncp_entry_def)
        moreover have "event_sent l' = (event_sent l \<or> F \<noteq> [])"
          using e sent2 F by simp
        ultimately show ?thesis using i by blast
      next
        case more: False
        with bt got(1) obtain n' where
          bt': "ncp_batch (pend @ [ncp_entry s c]) ?pool1 (map (ncp_entry s) ?es) = (F, P, pool', n')"
          and n: "n = Suc n'"
          by (auto simp: Let_def split: prod.splits if_splits)
        from ncp_add_more [OF got(3) more, of c ?s1] obtain l2 where
          add: "ncp_add c b (?s1, l1) =
                  (?s1\<lparr>connsm_at := (connsm_at ?s1)(c := (connsm_at ?s1 c)\<lparr>completed_pkts := 0\<rparr>)\<rparr>, l2)"
          and inv2: "ncp_inv l2 (pend @ [ncp_entry ?s1 c])"
          and sent2: "event_sent l2 = event_sent l1"
          by blast
        let ?s2 = "?s1\<lparr>connsm_at := (connsm_at ?s1)(c := (connsm_at ?s1 c)\<lparr>completed_pkts := 0\<rparr>)\<rparr>"
        have c2: "connsm_at ?s2 = (connsm_at s)(c := ?r)" by simp
        have f2: "filter (ncp_eligible ?s2) cs = ?es"
          and m2: "map (ncp_entry ?s2) ?es = map (ncp_entry s) ?es"
          using ncp_same_elsewhere [OF notin c2] by simp_all
        have e1: "ncp_entry ?s1 c = ncp_entry s c" by (simp add: ncp_entry_def)
        have "ncp_batch (pend @ [ncp_entry ?s1 c]) (g_hci_cmd_pool ?s2)
                (map (ncp_entry ?s2) (filter (ncp_eligible ?s2) cs)) = (F, P, pool', n')"
          using bt' by (simp only: f2 m2 e1) simp
        from Cons.IH [OF dist inv2 this] obtain evs l' where
          r: "ncp_foreach cs (?s2, l2) =
               (?s2\<lparr>connsm_at := ncp_reset (take n' (filter (ncp_eligible ?s2) cs)) (connsm_at ?s2),
                    hci_events := hci_events ?s2 @ evs, g_hci_cmd_pool := pool'\<rparr>, l')"
          and d: "map ncp_decode evs = F" and i: "ncp_inv l' P"
          and e: "event_sent l' = (event_sent l2 \<or> F \<noteq> [])"
          by blast
        have st: "?s2\<lparr>connsm_at := ncp_reset (take n' (filter (ncp_eligible ?s2) cs)) (connsm_at ?s2),
                    hci_events := hci_events ?s2 @ evs, g_hci_cmd_pool := pool'\<rparr>
                = s\<lparr>connsm_at := ncp_reset (take n (filter (ncp_eligible s) (c # cs))) (connsm_at s),
                    hci_events := hci_events s @ evs, g_hci_cmd_pool := pool'\<rparr>"
          using True by (simp only: f2 c2 n) (simp add: ncp_reset_Cons)
        have "ncp_foreach (c # cs) (s, l) =
                (s\<lparr>connsm_at := ncp_reset (take n (filter (ncp_eligible s) (c # cs))) (connsm_at s),
                    hci_events := hci_events s @ evs, g_hci_cmd_pool := pool'\<rparr>, l')"
          by (simp only: step add r st)
        moreover have "event_sent l' = (event_sent l \<or> F \<noteq> [])"
          using e sent2 got(4) by simp
        ultimately show ?thesis using i d by blast
      qed
    qed
  qed
qed

subsection \<open>The report over the entries\<close>

lemma ncp_batch_concat:
  "ncp_batch pend pool ps = (F, P, pool', n) \<Longrightarrow> concat F @ P = pend @ take n ps"
proof (induction ps arbitrary: pend pool F P pool' n)
  case Nil
  then show ?case by simp
next
  case (Cons p ps)
  show ?case
  proof (cases "pend = [] \<and> pool = []")
    case True
    with Cons.prems show ?thesis by simp
  next
    case False
    let ?pool1 = "if pend = [] then tl pool else pool"
    show ?thesis
    proof (cases "length pend + 1 = 60")
      case True
      with False Cons.prems obtain F' n' where
        "ncp_batch [] ?pool1 ps = (F', P, pool', n')" "F = (pend @ [p]) # F'" "n = Suc n'"
        by (auto simp: Let_def split: prod.splits if_splits)
      with Cons.IH [of "[]" ?pool1 F' P pool' n'] show ?thesis by simp
    next
      case more: False
      with False Cons.prems obtain n' where
        "ncp_batch (pend @ [p]) ?pool1 ps = (F, P, pool', n')" "n = Suc n'"
        by (auto simp: Let_def split: prod.splits if_splits)
      with Cons.IH [of "pend @ [p]" ?pool1 F P pool' n'] show ?thesis by simp
    qed
  qed
qed

lemma ncp_batch_lengths:
  "length pend < 60 \<Longrightarrow> ncp_batch pend pool ps = (F, P, pool', n) \<Longrightarrow>
   (\<forall>f \<in> set F. length f = 60) \<and> length P < 60"
proof (induction ps arbitrary: pend pool F P pool' n)
  case Nil
  then show ?case by simp
next
  case (Cons p ps)
  show ?case
  proof (cases "pend = [] \<and> pool = []")
    case True
    with Cons.prems show ?thesis by simp
  next
    case False
    let ?pool1 = "if pend = [] then tl pool else pool"
    show ?thesis
    proof (cases "length pend + 1 = 60")
      case True
      with False Cons.prems obtain F' n' where
        "ncp_batch [] ?pool1 ps = (F', P, pool', n')" "F = (pend @ [p]) # F'" "n = Suc n'"
        by (auto simp: Let_def split: prod.splits if_splits)
      with Cons.IH [of "[]" ?pool1 F' P pool' n'] True show ?thesis by simp
    next
      case more: False
      with False Cons.prems obtain n' where
        b: "ncp_batch (pend @ [p]) ?pool1 ps = (F, P, pool', n')" "n = Suc n'"
        by (auto simp: Let_def split: prod.splits if_splits)
      from more Cons.prems(1) have "length (pend @ [p]) < 60" by simp
      from Cons.IH [OF this b(1)] show ?thesis .
    qed
  qed
qed

lemma ncp_batch_count:
  "length pend < 60 \<Longrightarrow> ncp_batch pend pool ps = (F, P, pool', n) \<Longrightarrow>
   n = min (length ps) ((if pend = [] then 0 else 60 - length pend) + 60 * length pool)"
proof (induction ps arbitrary: pend pool F P pool' n)
  case Nil
  then show ?case by simp
next
  case (Cons p ps)
  show ?case
  proof (cases "pend = [] \<and> pool = []")
    case True
    with Cons.prems show ?thesis by simp
  next
    case False
    let ?pool1 = "if pend = [] then tl pool else pool"
    have pl: "length ?pool1 = (if pend = [] then length pool - 1 else length pool)" by simp
    from False have pos: "pend = [] \<Longrightarrow> 0 < length pool" by simp
    show ?thesis
    proof (cases "length pend + 1 = 60")
      case True
      with False Cons.prems obtain F' n' where
        b: "ncp_batch [] ?pool1 ps = (F', P, pool', n')" and n: "n = Suc n'"
        by (auto simp: Let_def split: prod.splits if_splits)
      from Cons.IH [OF _ b] have "n' = min (length ps) (60 * length ?pool1)" by simp
      moreover from True have "pend \<noteq> []" by auto
      ultimately show ?thesis using True n by simp
    next
      case more: False
      with False Cons.prems obtain n' where
        b: "ncp_batch (pend @ [p]) ?pool1 ps = (F, P, pool', n')" and n: "n = Suc n'"
        by (auto simp: Let_def split: prod.splits if_splits)
      from more Cons.prems(1) have lt: "length (pend @ [p]) < 60" by simp
      from Cons.IH [OF lt b] have
        n': "n' = min (length ps) (60 - length (pend @ [p]) + 60 * length ?pool1)" by simp
      show ?thesis
      proof (cases "pend = []")
        case True
        with pos obtain k where "length pool = Suc k" by (cases pool) auto
        with True n n' show ?thesis by (simp add: min_def)
      next
        case False
        with n n' lt show ?thesis by (simp add: min_def; arith)
      qed
    qed
  qed
qed

lemma ncp_flush_inv:
  assumes "ncp_inv l P"
  shows "\<exists>evs l'. ncp_flush (s, l) = (s\<lparr>hci_events := hci_events s @ evs\<rparr>, l') \<and>
           map ncp_decode evs = (if P = [] then [] else [P]) \<and>
           event_sent l' = (event_sent l \<or> P \<noteq> [])"
proof (cases "evbuf l")
  case None
  with assms have "P = []" by (simp add: ncp_inv_def)
  with None show ?thesis by (simp add: ncp_flush_def)
next
  case (Some b)
  with assms have ne: "P \<noteq> []" and held: "ncp_held b l P" by (simp_all add: ncp_inv_def)
  from held have h: "handles l = of_nat (length P)" "length P < 60"
      "handle_ptr l = 3 + 2 * length P" "ncp_staged b P"
    by (simp_all add: ncp_held_def)
  from h(2) have "unat (of_nat (length P) :: u8) = length P" by (simp add: unat_of_nat)
  with h(1,2) have lt: "handles l < 60" by (simp add: word_less_nat_alt)
  let ?ev = "memmove (ncp_header b (handles l)) (3 + 2 * length P) (3 + 60 * 2)
               (unat (handles l) * 2)"
  have dec: "ncp_decode ?ev = P"
    using ncp_decode_partial [OF h(4,2,1)] by simp
  have eq: "ncp_flush (s, l) = (s\<lparr>hci_events := hci_events s @ [?ev]\<rparr>, l\<lparr>event_sent := True\<rparr>)"
    using Some lt h(3) by (simp add: ncp_flush_def Let_def ble_ll_hci_event_send_def)
  have "map ncp_decode [?ev] = (if P = [] then [] else [P])"
    using ne by (simp only: list.map dec if_False)
  moreover have "event_sent (l\<lparr>event_sent := True\<rparr>) = (event_sent l \<or> P \<noteq> [])"
    using ne by simp
  ultimately show ?thesis
    using eq by blast
qed

lemma ncp_inv_init: "ncp_inv ncp_init []"
  by (simp add: ncp_inv_def ncp_init_def)

text \<open>One run of the notifier past the rate gate.\<close>

lemma num_comp_pkts_run:
  assumes "distinct (g_ble_ll_conn_active_list s)"
    and "\<not> g_ble_ll_next_num_comp_pkt_evt s - now < BLE_LL_NUM_COMP_PKT_RATE K"
    and "ncp_batch [] (g_hci_cmd_pool s)
           (map (ncp_entry s) (filter (ncp_eligible s) (g_ble_ll_conn_active_list s)))
         = (F, P, pool', n)"
  shows "\<exists>evs. ble_ll_conn_num_comp_pkts_event_send K now now' s =
           s\<lparr>connsm_at := ncp_reset (take n (filter (ncp_eligible s) (g_ble_ll_conn_active_list s)))
                             (connsm_at s),
             hci_events := hci_events s @ evs, g_hci_cmd_pool := pool',
             g_ble_ll_next_num_comp_pkt_evt :=
               (if evs = [] then g_ble_ll_next_num_comp_pkt_evt s
                else now' + BLE_LL_NUM_COMP_PKT_RATE K)\<rparr> \<and>
           map ncp_decode evs = F @ (if P = [] then [] else [P])"
proof -
  let ?es = "filter (ncp_eligible s) (g_ble_ll_conn_active_list s)"
  from ncp_foreach_sim [OF assms(1) ncp_inv_init assms(3)] obtain evs l' where
    r: "ncp_foreach (g_ble_ll_conn_active_list s) (s, ncp_init) =
           (s\<lparr>connsm_at := ncp_reset (take n ?es) (connsm_at s),
               hci_events := hci_events s @ evs, g_hci_cmd_pool := pool'\<rparr>, l')"
    and d: "map ncp_decode evs = F" and i: "ncp_inv l' P"
    and e: "event_sent l' = (event_sent ncp_init \<or> F \<noteq> [])"
    by blast
  let ?s1 = "s\<lparr>connsm_at := ncp_reset (take n ?es) (connsm_at s),
               hci_events := hci_events s @ evs, g_hci_cmd_pool := pool'\<rparr>"
  from ncp_flush_inv [OF i, of ?s1] obtain evs2 l2 where
    f: "ncp_flush (?s1, l') = (?s1\<lparr>hci_events := hci_events ?s1 @ evs2\<rparr>, l2)"
    and d2: "map ncp_decode evs2 = (if P = [] then [] else [P])"
    and e2: "event_sent l2 = (event_sent l' \<or> P \<noteq> [])"
    by blast
  from d d2 have nil: "evs @ evs2 = [] \<longleftrightarrow> F = [] \<and> P = []"
    by (auto split: if_splits)
  from e e2 nil have sent: "event_sent l2 \<longleftrightarrow> evs @ evs2 \<noteq> []"
    by (simp add: ncp_init_def)
  have "ble_ll_conn_num_comp_pkts_event_send K now now' s =
           s\<lparr>connsm_at := ncp_reset (take n ?es) (connsm_at s),
             hci_events := hci_events s @ (evs @ evs2), g_hci_cmd_pool := pool',
             g_ble_ll_next_num_comp_pkt_evt :=
               (if evs @ evs2 = [] then g_ble_ll_next_num_comp_pkt_evt s
                else now' + BLE_LL_NUM_COMP_PKT_RATE K)\<rparr>"
    using assms(2) sent
    by (simp add: ble_ll_conn_num_comp_pkts_event_send_def r f)
  moreover have "map ncp_decode (evs @ evs2) = F @ (if P = [] then [] else [P])"
    using d d2 by simp
  ultimately show ?thesis by blast
qed

subsection \<open>What is reported and what is cleared\<close>

lemma ncp_batch_total:
  "\<exists>F P pool' n. ncp_batch pend pool ps = (F, P, pool', n)"
  by (metis prod_cases4)

lemma length_concat_60:
  "(\<forall>f \<in> set F. length f = 60) \<Longrightarrow> length (concat F) = 60 * length F"
  by (induction F) simp_all

text \<open>
  C10. The notifier runs past the rate gate over an active list without repetitions. Let
  \<open>es\<close> be the eligible records in list order and \<open>m\<close> the smaller of their number and 60
  times the number of free event blocks. The reports sent hold, in order, the handle and
  the count of exactly the first \<open>m\<close> eligible records; exactly these records have their
  counter cleared and are otherwise as before; every other record, the eligible ones from
  position \<open>m\<close> on among them, is unchanged.
\<close>

theorem num_comp_pkts_reset_only_reported:
  fixes s :: "'scan ll_state" and now' :: u32
  assumes "distinct (g_ble_ll_conn_active_list s)"
    and "\<not> g_ble_ll_next_num_comp_pkt_evt s - now < BLE_LL_NUM_COMP_PKT_RATE K"
  defines "es \<equiv> filter (ncp_eligible s) (g_ble_ll_conn_active_list s)"
  defines "m \<equiv> min (length es) (60 * length (g_hci_cmd_pool s))"
  defines "s' \<equiv> ble_ll_conn_num_comp_pkts_event_send K now now' s"
  shows "(\<exists>evs. hci_events s' = hci_events s @ evs \<and>
                concat (map ncp_decode evs) = map (ncp_entry s) (take m es)) \<and>
         (\<forall>c. connsm_at s' c = (if c \<in> set (take m es)
                                 then (connsm_at s c)\<lparr>completed_pkts := 0\<rparr>
                                 else connsm_at s c)) \<and>
         (\<forall>c \<in> set (drop m es). connsm_at s' c = connsm_at s c)"
proof -
  obtain F P pool' n where
    b: "ncp_batch [] (g_hci_cmd_pool s) (map (ncp_entry s) es) = (F, P, pool', n)"
    using ncp_batch_total by blast
  from ncp_batch_count [OF _ b] have n: "n = m" by (simp add: m_def)
  from ncp_batch_concat [OF b] have cc: "concat F @ P = map (ncp_entry s) (take m es)"
    by (simp add: n take_map)
  from num_comp_pkts_run [OF assms(1,2) b [unfolded es_def], of now'] obtain evs where
    r: "s' = s\<lparr>connsm_at := ncp_reset (take m es) (connsm_at s),
             hci_events := hci_events s @ evs, g_hci_cmd_pool := pool',
             g_ble_ll_next_num_comp_pkt_evt :=
               (if evs = [] then g_ble_ll_next_num_comp_pkt_evt s
                else now' + BLE_LL_NUM_COMP_PKT_RATE K)\<rparr>"
    and d: "map ncp_decode evs = F @ (if P = [] then [] else [P])"
    unfolding s'_def es_def [symmetric] n by blast
  from r have ev: "hci_events s' = hci_events s @ evs"
    and cs: "connsm_at s' = ncp_reset (take m es) (connsm_at s)" by simp_all
  from d cc have "concat (map ncp_decode evs) = map (ncp_entry s) (take m es)"
    by (simp split: if_splits)
  with ev have 1: "\<exists>evs. hci_events s' = hci_events s @ evs \<and>
                concat (map ncp_decode evs) = map (ncp_entry s) (take m es)" by blast
  have 2: "\<forall>c. connsm_at s' c = (if c \<in> set (take m es)
                                 then (connsm_at s c)\<lparr>completed_pkts := 0\<rparr>
                                 else connsm_at s c)"
    by (simp add: cs ncp_reset_def)
  have "distinct es" using assms(1) by (simp add: es_def)
  then have "distinct (take m es @ drop m es)" by simp
  then have "set (take m es) \<inter> set (drop m es) = {}"
    by (simp only: distinct_append)
  with 2 have 3: "\<forall>c \<in> set (drop m es). connsm_at s' c = connsm_at s c" by auto
  from 1 2 3 show ?thesis by blast
qed

text \<open>
  C8, as amended. With exactly 61 eligible records on an active list without repetitions,
  past the rate gate and with at least two free event blocks, the notifier sends exactly two
  reports: the first holds the 60 (handle, count) pairs of the first 60 eligible records,
  the second the pair of the last one; the counter of every eligible record is 0 afterwards.
\<close>

theorem num_comp_pkts_61_two_reports:
  fixes s :: "'scan ll_state" and now' :: u32
  assumes "distinct (g_ble_ll_conn_active_list s)"
    and "\<not> g_ble_ll_next_num_comp_pkt_evt s - now < BLE_LL_NUM_COMP_PKT_RATE K"
    and "length (filter (ncp_eligible s) (g_ble_ll_conn_active_list s)) = 61"
    and "2 \<le> length (g_hci_cmd_pool s)"
  defines "es \<equiv> filter (ncp_eligible s) (g_ble_ll_conn_active_list s)"
  defines "s' \<equiv> ble_ll_conn_num_comp_pkts_event_send K now now' s"
  shows "(\<exists>e1 e2. hci_events s' = hci_events s @ [e1, e2] \<and>
            ncp_decode e1 = map (ncp_entry s) (take 60 es) \<and>
            ncp_decode e2 = map (ncp_entry s) (drop 60 es) \<and>
            length (ncp_decode e1) = 60 \<and> length (ncp_decode e2) = 1) \<and>
         (\<forall>c \<in> set es. completed_pkts (connsm_at s' c) = 0)"
proof -
  let ?ps = "map (ncp_entry s) es"
  have len: "length es = 61" using assms(3) by (simp add: es_def)
  obtain F P pool' n where
    b: "ncp_batch [] (g_hci_cmd_pool s) ?ps = (F, P, pool', n)"
    using ncp_batch_total by blast
  from ncp_batch_count [OF _ b] assms(4) len have n: "n = 61" by simp
  from ncp_batch_concat [OF b] len have cc: "concat F @ P = ?ps" by (simp add: n)
  from ncp_batch_lengths [OF _ b] have l60: "\<forall>f \<in> set F. length f = 60" and lP: "length P < 60"
    by simp_all
  from cc have "length (concat F) + length P = 61" using len
    by (metis length_append length_map)
  with length_concat_60 [OF l60] lP have "length F = 1 \<and> length P = 1" by arith
  then obtain f where F: "F = [f]" and P1: "length P = 1"
    by (cases F) auto
  from l60 F have lf: "length f = 60" by simp
  from cc F have "f @ P = ?ps" by simp
  with lf have f: "f = take 60 ?ps" and P: "P = drop 60 ?ps"
    by (auto simp: append_eq_conv_conj)
  from num_comp_pkts_run [OF assms(1,2) b [unfolded es_def], of now'] obtain evs where
    r: "s' = s\<lparr>connsm_at := ncp_reset (take n es) (connsm_at s),
             hci_events := hci_events s @ evs, g_hci_cmd_pool := pool',
             g_ble_ll_next_num_comp_pkt_evt :=
               (if evs = [] then g_ble_ll_next_num_comp_pkt_evt s
                else now' + BLE_LL_NUM_COMP_PKT_RATE K)\<rparr>"
    and d: "map ncp_decode evs = F @ (if P = [] then [] else [P])"
    unfolding s'_def es_def [symmetric] by blast
  from P1 have "P \<noteq> []" by auto
  with d F have d2: "map ncp_decode evs = [f, P]" by simp
  then obtain e1 e2 where evs: "evs = [e1, e2]" and e1: "ncp_decode e1 = f"
    and e2: "ncp_decode e2 = P"
    by (auto simp: map_eq_Cons_conv)
  from r evs have "hci_events s' = hci_events s @ [e1, e2]" by simp
  moreover from e1 f have "ncp_decode e1 = map (ncp_entry s) (take 60 es)"
    by (simp add: take_map)
  moreover from e2 P have "ncp_decode e2 = map (ncp_entry s) (drop 60 es)"
    by (simp add: drop_map)
  moreover from e1 lf have "length (ncp_decode e1) = 60" by simp
  moreover from e2 P1 have "length (ncp_decode e2) = 1" by simp
  moreover have "\<forall>c \<in> set es. completed_pkts (connsm_at s' c) = 0"
    using r len by (simp add: n ncp_reset_def)
  ultimately show ?thesis by blast
qed

lemma ncp_batch_no_buf: "ncp_batch [] [] ps = ([], [], [], 0)"
  by (cases ps) simp_all

lemma demo_state61_facts:
  "g_ble_ll_conn_active_list demo_state61 = [0..<61]"
  "g_ble_ll_next_num_comp_pkt_evt demo_state61 = 0"
  "length (g_hci_cmd_pool demo_state61) = 2"
  "hci_events demo_state61 = []"
  "connsm_at demo_state61 c = demo_conn\<lparr>conn_handle := of_nat c + 1\<rparr>"
  "ncp_eligible demo_state61 c"
  "ncp_entry demo_state61 c = (of_nat c + 1, 3)"
  by (simp_all add: demo_state61_def demo_state_def demo_conn_def ncp_eligible_def
      ncp_entry_def)

lemma demo_state61_variants:
  "g_ble_ll_conn_active_list demo_state61_nobuf = [0..<61]"
  "g_ble_ll_next_num_comp_pkt_evt demo_state61_nobuf = 0"
  "g_hci_cmd_pool demo_state61_nobuf = []"
  "hci_events demo_state61_nobuf = []"
  "connsm_at demo_state61_nobuf c = demo_conn\<lparr>conn_handle := of_nat c + 1\<rparr>"
  "ncp_eligible demo_state61_nobuf c"
  "g_ble_ll_conn_active_list demo_state61_onebuf = [0..<61]"
  "g_ble_ll_next_num_comp_pkt_evt demo_state61_onebuf = 0"
  "length (g_hci_cmd_pool demo_state61_onebuf) = 1"
  "hci_events demo_state61_onebuf = []"
  "connsm_at demo_state61_onebuf c = demo_conn\<lparr>conn_handle := of_nat c + 1\<rparr>"
  "ncp_eligible demo_state61_onebuf c"
  "ncp_entry demo_state61_onebuf c = (of_nat c + 1, 3)"
  by (simp_all add: demo_state61_nobuf_def demo_state61_onebuf_def demo_state61_def
      demo_state_def demo_conn_def ncp_eligible_def ncp_entry_def)

lemma demo_gate_open: "\<not> (0 :: u32) - 5000 < BLE_LL_NUM_COMP_PKT_RATE ble_consts"
  by (simp add: ble_consts_def)

theorem num_comp_pkts_61_two_reports_witness:
  "\<exists>e1 e2. hci_events (ble_ll_conn_num_comp_pkts_event_send ble_consts 5000 5000 demo_state61)
             = [e1, e2] \<and>
           length (ncp_decode e1) = 60 \<and> length (ncp_decode e2) = 1 \<and>
           ncp_decode e2 = [(61, 3)]"
proof -
  have el: "filter (ncp_eligible demo_state61) [0..<61] = [0..<61]"
    by (simp add: demo_state61_facts)
  have h1: "distinct (g_ble_ll_conn_active_list demo_state61)"
    by (simp add: demo_state61_facts)
  have h2: "\<not> g_ble_ll_next_num_comp_pkt_evt demo_state61 - 5000
              < BLE_LL_NUM_COMP_PKT_RATE ble_consts"
    using demo_gate_open by (simp add: demo_state61_facts)
  have h3: "length (filter (ncp_eligible demo_state61) (g_ble_ll_conn_active_list demo_state61))
              = 61"
    by (simp add: demo_state61_facts)
  have h4: "2 \<le> length (g_hci_cmd_pool demo_state61)"
    by (simp add: demo_state61_facts)
  have d: "map (ncp_entry demo_state61) (drop 60 [0..<61]) = [(61, 3)]"
    by (simp add: demo_state61_facts)
  from num_comp_pkts_61_two_reports [OF h1 h2 h3 h4, of 5000, THEN conjunct1]
  show ?thesis
    by (simp only: demo_state61_facts(1,4) el d append_Nil) blast
qed

text \<open>
  C8 as stated does not hold: with the same 61 eligible records past the rate gate, but no
  free event block, no report is sent and no counter is cleared.
\<close>

theorem num_comp_pkts_61_no_buffer:
  "length (filter (ncp_eligible demo_state61_nobuf)
             (g_ble_ll_conn_active_list demo_state61_nobuf)) = 61 \<and>
   \<not> g_ble_ll_next_num_comp_pkt_evt demo_state61_nobuf - 5000
       < BLE_LL_NUM_COMP_PKT_RATE ble_consts \<and>
   hci_events (ble_ll_conn_num_comp_pkts_event_send ble_consts 5000 5000 demo_state61_nobuf)
     = hci_events demo_state61_nobuf \<and>
   ble_ll_conn_num_comp_pkts_event_send ble_consts 5000 5000 demo_state61_nobuf
     = demo_state61_nobuf"
proof -
  have h1: "distinct (g_ble_ll_conn_active_list demo_state61_nobuf)"
    by (simp add: demo_state61_variants)
  have h2: "\<not> g_ble_ll_next_num_comp_pkt_evt demo_state61_nobuf - 5000
              < BLE_LL_NUM_COMP_PKT_RATE ble_consts"
    using demo_gate_open by (simp add: demo_state61_variants)
  have h3: "length (filter (ncp_eligible demo_state61_nobuf)
                      (g_ble_ll_conn_active_list demo_state61_nobuf)) = 61"
    by (simp add: demo_state61_variants)
  have b: "ncp_batch [] (g_hci_cmd_pool demo_state61_nobuf)
             (map (ncp_entry demo_state61_nobuf)
                (filter (ncp_eligible demo_state61_nobuf)
                   (g_ble_ll_conn_active_list demo_state61_nobuf))) = ([], [], [], 0)"
    by (simp only: demo_state61_variants(3) ncp_batch_no_buf)
  from num_comp_pkts_run [OF h1 h2 b, of 5000] obtain evs where
    r: "ble_ll_conn_num_comp_pkts_event_send ble_consts 5000 5000 demo_state61_nobuf =
          demo_state61_nobuf\<lparr>connsm_at := ncp_reset (take 0 (filter (ncp_eligible demo_state61_nobuf)
                (g_ble_ll_conn_active_list demo_state61_nobuf))) (connsm_at demo_state61_nobuf),
             hci_events := hci_events demo_state61_nobuf @ evs, g_hci_cmd_pool := [],
             g_ble_ll_next_num_comp_pkt_evt :=
               (if evs = [] then g_ble_ll_next_num_comp_pkt_evt demo_state61_nobuf
                else 5000 + BLE_LL_NUM_COMP_PKT_RATE ble_consts)\<rparr>"
    and d: "map ncp_decode evs = [] @ (if ([] :: (u16 \<times> u16) list) = [] then [] else [ [] ])"
    by blast
  from d have "evs = []" by simp
  with r have "ble_ll_conn_num_comp_pkts_event_send ble_consts 5000 5000 demo_state61_nobuf
     = demo_state61_nobuf"
    using demo_state61_variants(3) by (simp add: ncp_reset_Nil)
  with h2 h3 show ?thesis by simp
qed

theorem num_comp_pkts_reset_only_reported_witness:
  "\<exists>evs. hci_events (ble_ll_conn_num_comp_pkts_event_send ble_consts 5000 5000 demo_state61_onebuf)
            = evs \<and>
         concat (map ncp_decode evs) = map (ncp_entry demo_state61_onebuf) [0..<60] \<and>
         completed_pkts (connsm_at
           (ble_ll_conn_num_comp_pkts_event_send ble_consts 5000 5000 demo_state61_onebuf) 59) = 0 \<and>
         completed_pkts (connsm_at
           (ble_ll_conn_num_comp_pkts_event_send ble_consts 5000 5000 demo_state61_onebuf) 60) = 3"
proof -
  let ?s = demo_state61_onebuf
  let ?s' = "ble_ll_conn_num_comp_pkts_event_send ble_consts 5000 5000 ?s"
  have el: "filter (ncp_eligible ?s) [0..<61] = [0..<61]"
    by (simp add: demo_state61_variants)
  have h1: "distinct (g_ble_ll_conn_active_list ?s)"
    by (simp add: demo_state61_variants)
  have h2: "\<not> g_ble_ll_next_num_comp_pkt_evt ?s - 5000 < BLE_LL_NUM_COMP_PKT_RATE ble_consts"
    using demo_gate_open by (simp add: demo_state61_variants)
  have m: "min (length [0..<61]) (60 * length (g_hci_cmd_pool ?s)) = 60"
    by (simp add: demo_state61_variants)
  have t: "take 60 [0..<61] = [0..<60]" by simp
  note inst = num_comp_pkts_reset_only_reported [OF h1 h2, of 5000,
      unfolded demo_state61_variants(7,10) el m t append_Nil]
  from inst have 1: "\<exists>evs. hci_events ?s' = evs \<and>
                concat (map ncp_decode evs) = map (ncp_entry ?s) [0..<60]"
    by blast
  from inst have 2: "\<forall>c. connsm_at ?s' c = (if c \<in> set [0..<60]
                                 then (connsm_at ?s c)\<lparr>completed_pkts := 0\<rparr>
                                 else connsm_at ?s c)"
    by blast
  from 2 have "completed_pkts (connsm_at ?s' 59) = 0" by simp
  moreover from 2 have "completed_pkts (connsm_at ?s' 60) = 3"
    by (simp add: demo_state61_variants demo_conn_def)
  ultimately show ?thesis using 1 by blast
qed

subsection \<open>The rate gate\<close>

text \<open>An invocation that the rate check stops does nothing.\<close>

lemma num_comp_pkts_rate_limited:
  "g_ble_ll_next_num_comp_pkt_evt s - now < BLE_LL_NUM_COMP_PKT_RATE K \<Longrightarrow>
   ble_ll_conn_num_comp_pkts_event_send K now now' s = s"
  by (simp add: ble_ll_conn_num_comp_pkts_event_send_def)

text \<open>
  Once the gate stands at \<open>t0 + rate\<close>, where \<open>t0\<close> is the time read after a send, an
  invocation at a time \<open>t\<close> one to \<open>rate\<close> ticks later is stopped by the rate check.
\<close>

lemma rate_window:
  fixes r d :: u32
  assumes "d \<noteq> 0" and "d \<le> r"
  shows "r - d < r"
proof -
  from assms(2) have "unat (r - d) = unat r - unat d" by (rule unat_sub)
  moreover from assms(1) have "0 < unat d" by (simp add: unat_gt_0)
  moreover from assms(2) have "unat d \<le> unat r" by (simp add: word_le_nat_alt)
  ultimately show ?thesis by (simp add: word_less_nat_alt)
qed

lemma num_comp_pkts_limited_after_send:
  assumes "g_ble_ll_next_num_comp_pkt_evt s = t0 + BLE_LL_NUM_COMP_PKT_RATE K"
    and "t - t0 \<noteq> 0" and "t - t0 \<le> BLE_LL_NUM_COMP_PKT_RATE K"
  shows "ble_ll_conn_num_comp_pkts_event_send K t t' s = s"
proof -
  have "g_ble_ll_next_num_comp_pkt_evt s - t = BLE_LL_NUM_COMP_PKT_RATE K - (t - t0)"
    by (simp add: assms(1))
  with rate_window [OF assms(2,3)] have
    "g_ble_ll_next_num_comp_pkt_evt s - t < BLE_LL_NUM_COMP_PKT_RATE K"
    by (simp only:)
  then show ?thesis
    by (rule num_comp_pkts_rate_limited)
qed

lemma demo_state_facts:
  "g_ble_ll_conn_active_list demo_state = [0, 1, 2]"
  "g_ble_ll_next_num_comp_pkt_evt demo_state = 0"
  "g_hci_cmd_pool demo_state = [\<lambda>i. 0xaa, \<lambda>i. 0xbb]"
  "hci_events demo_state = []"
  "connsm_at demo_state c = demo_conn\<lparr>conn_handle := of_nat c + 1\<rparr>"
  by (simp_all add: demo_state_def)

text \<open>
  C9. \<open>demo_state\<close> has three active records with three completed packets each and a
  packet queued. The notifier is invoked at tick 5000 and reads tick 5000 again after
  sending; the gate then stands at 5000 plus the rate, so that at tick 5000 the distance
  to the gate is the rate itself and not below it. A second invocation in the same tick
  passes the rate check and sends a second report, with counts 0.
\<close>

theorem num_comp_pkts_twice_same_tick:
  "\<exists>e1 e2.
     hci_events (ble_ll_conn_num_comp_pkts_event_send ble_consts 5000 5000
                  (ble_ll_conn_num_comp_pkts_event_send ble_consts 5000 5000 demo_state))
       = [e1, e2] \<and>
     ncp_decode e1 = [(1, 3), (2, 3), (3, 3)] \<and>
     ncp_decode e2 = [(1, 0), (2, 0), (3, 0)] \<and>
     g_ble_ll_next_num_comp_pkt_evt
       (ble_ll_conn_num_comp_pkts_event_send ble_consts 5000 5000 demo_state) - 5000
       = BLE_LL_NUM_COMP_PKT_RATE ble_consts"
proof -
  let ?N = "ble_ll_conn_num_comp_pkts_event_send ble_consts 5000 5000"
  let ?s1 = "?N demo_state"
  have el: "filter (ncp_eligible demo_state) [0, 1, 2] = [0, 1, 2]"
    by (simp add: ncp_eligible_def demo_state_facts demo_conn_def)
  have en: "map (ncp_entry demo_state) [0, 1, 2] = [(1, 3), (2, 3), (3, 3)]"
    by (simp add: ncp_entry_def demo_state_facts demo_conn_def)
  have h1: "distinct (g_ble_ll_conn_active_list demo_state)"
    by (simp add: demo_state_facts)
  have h2: "\<not> g_ble_ll_next_num_comp_pkt_evt demo_state - 5000
              < BLE_LL_NUM_COMP_PKT_RATE ble_consts"
    using demo_gate_open by (simp add: demo_state_facts)
  have b1: "ncp_batch [] (g_hci_cmd_pool demo_state)
              (map (ncp_entry demo_state)
                 (filter (ncp_eligible demo_state) (g_ble_ll_conn_active_list demo_state)))
            = ([], [(1, 3), (2, 3), (3, 3)], [\<lambda>i. 0xbb], 3)"
    by (simp only: demo_state_facts(1,3) el en) (simp add: Let_def)
  from num_comp_pkts_run [OF h1 h2 b1, of 5000, unfolded demo_state_facts(1,4) el append_Nil]
  obtain evs where
    r1: "?s1 = demo_state\<lparr>connsm_at := ncp_reset (take 3 [0, 1, 2]) (connsm_at demo_state),
             hci_events := evs, g_hci_cmd_pool := [\<lambda>i. 0xbb],
             g_ble_ll_next_num_comp_pkt_evt :=
               (if evs = [] then g_ble_ll_next_num_comp_pkt_evt demo_state
                else 5000 + BLE_LL_NUM_COMP_PKT_RATE ble_consts)\<rparr>"
    and d1: "map ncp_decode evs
             = (if [(1, 3), (2, 3), (3, 3)] = ([] :: (u16 \<times> u16) list) then []
                else [ [(1, 3), (2, 3), (3, 3)] ])"
    by blast
  from d1 obtain e1 where evs: "evs = [e1]" and e1: "ncp_decode e1 = [(1, 3), (2, 3), (3, 3)]"
    by (auto simp: map_eq_Cons_conv)
  from r1 evs have s1:
    "g_ble_ll_conn_active_list ?s1 = [0, 1, 2]"
    "g_hci_cmd_pool ?s1 = [\<lambda>i. 0xbb]"
    "hci_events ?s1 = [e1]"
    "g_ble_ll_next_num_comp_pkt_evt ?s1 = 5000 + BLE_LL_NUM_COMP_PKT_RATE ble_consts"
    "connsm_at ?s1 = ncp_reset [0, 1, 2] (connsm_at demo_state)"
    by (simp_all add: demo_state_facts)
  have el2: "filter (ncp_eligible ?s1) [0, 1, 2] = [0, 1, 2]"
    by (simp add: ncp_eligible_def s1(5) ncp_reset_def demo_state_facts demo_conn_def)
  have en2: "map (ncp_entry ?s1) [0, 1, 2] = [(1, 0), (2, 0), (3, 0)]"
    by (simp add: ncp_entry_def s1(5) ncp_reset_def demo_state_facts demo_conn_def)
  have g1: "distinct (g_ble_ll_conn_active_list ?s1)"
    by (simp add: s1(1))
  have gate: "g_ble_ll_next_num_comp_pkt_evt ?s1 - 5000 = BLE_LL_NUM_COMP_PKT_RATE ble_consts"
    by (simp add: s1(4))
  have g2: "\<not> g_ble_ll_next_num_comp_pkt_evt ?s1 - 5000 < BLE_LL_NUM_COMP_PKT_RATE ble_consts"
    by (simp add: gate)
  have b2: "ncp_batch [] (g_hci_cmd_pool ?s1)
              (map (ncp_entry ?s1) (filter (ncp_eligible ?s1) (g_ble_ll_conn_active_list ?s1)))
            = ([], [(1, 0), (2, 0), (3, 0)], [], 3)"
    by (simp only: s1(1,2) el2 en2) (simp add: Let_def)
  from num_comp_pkts_run [OF g1 g2 b2, of 5000] obtain evs2 where
    r2: "hci_events (?N ?s1) = hci_events ?s1 @ evs2"
    and d2: "map ncp_decode evs2
             = [] @ (if [(1, 0), (2, 0), (3, 0)] = ([] :: (u16 \<times> u16) list) then []
                     else [ [(1, 0), (2, 0), (3, 0)] ])"
    by force
  from d2 obtain e2 where evs2: "evs2 = [e2]" and e2: "ncp_decode e2 = [(1, 0), (2, 0), (3, 0)]"
    by (auto simp: map_eq_Cons_conv)
  from r2 evs2 s1(3) have "hci_events (?N ?s1) = [e1, e2]" by simp
  with e1 e2 gate show ?thesis by blast
qed

end
